theory Spec2Isabelle
  imports Main
begin

section \<open>The orchestration script \<open>scripts/run_pipeline.py\<close>\<close>

text \<open>
  The script drives Spark jobs on a cluster through the \<open>oc\<close> command line tool. Every
  effect it has goes through four things: running \<open>oc\<close> (\<open>subprocess.run\<close>), reading the
  wall clock (\<open>time.time\<close>), sleeping (\<open>time.sleep\<close>) and writing log lines. The model
  threads a \<open>world\<close> through every function: the world answers each \<open>oc\<close> invocation,
  keeps the clock, and records the commands run and the lines logged.

  A Python function that may raise returns \<open>world \<times> (exn + 'a)\<close>: \<open>Inl\<close> is the exception
  that leaves the function, \<open>Inr\<close> its return value.
\<close>

subsection \<open>Strings\<close>

text \<open>\<open>str.strip()\<close> and \<open>str.split('\n')\<close> on ASCII text. The characters \<open>str.isspace\<close>
  accepts below 128 are 9 to 13, 28 to 31 and 32.\<close>

definition is_space :: "char \<Rightarrow> bool" where
  "is_space c = (of_char c \<in> set [9, 10, 11, 12, 13, 28, 29, 30, 31, 32 :: nat])"

definition strip :: "string \<Rightarrow> string" where
  "strip s = rev (dropWhile is_space (rev (dropWhile is_space s)))"

fun split_nl :: "string \<Rightarrow> string list" where
  "split_nl [] = [[]]"
| "split_nl (c # cs) =
     (if c = CHR 0x0A then [] # split_nl cs
      else (case split_nl cs of [] \<Rightarrow> [[c]] | l # ls \<Rightarrow> (c # l) # ls))"

text \<open>\<open>sub in s\<close> for strings.\<close>

fun contains :: "string \<Rightarrow> string \<Rightarrow> bool" where
  "contains sub [] = (sub = [])"
| "contains sub (c # cs) = (take (length sub) (c # cs) = sub \<or> contains sub cs)"

text \<open>\<open>' '.join(cmd)\<close>.\<close>

fun join_sp :: "string list \<Rightarrow> string" where
  "join_sp [] = []"
| "join_sp [x] = x"
| "join_sp (x # y # ys) = x @ '' '' @ join_sp (y # ys)"

text \<open>\<open>str(n)\<close> for an integer, and the format \<open>{x:.1f}\<close> of a quotient \<open>num / den\<close>
  (\<open>den > 0\<close>). Python's floats are modelled by exact rationals here, rounded half to
  even at the first decimal.\<close>

fun str_nat :: "nat \<Rightarrow> string" where
  "str_nat n =
     (if n < 10 then [char_of (48 + n)] else str_nat (n div 10) @ [char_of (48 + n mod 10)])"

declare str_nat.simps [simp del]

definition str_int :: "int \<Rightarrow> string" where
  "str_int i = (if i < 0 then ''-'' @ str_nat (nat (- i)) else str_nat (nat i))"

definition round_half_even :: "int \<Rightarrow> int \<Rightarrow> int" where
  "round_half_even num den =
     (let q = num div den; r = num mod den
      in if 2 * r > den \<or> (2 * r = den \<and> odd q) then q + 1 else q)"

definition fmt_1f :: "int \<Rightarrow> int \<Rightarrow> string" where
  "fmt_1f num den =
     (let t = round_half_even (10 * \<bar>num\<bar>) den
      in (if num < 0 then ''-'' else '''') @ str_int (t div 10) @ ''.'' @ str_int (t mod 10))"

subsection \<open>The world\<close>

datatype level = DEBUG | INFO | WARNING | ERROR

text \<open>The exceptions. A value of \<open>exn\<close> does not carry the text of the exception: the
  two lines that log a caught exception (\<open>Pipeline validation failed: {e}\<close> and
  \<open>Unexpected error: {e}\<close>) end after the colon here.\<close>

datatype exn = CalledProcessError | ZeroDivisionError | AttributeError | KeyboardInterrupt

text \<open>
  How one \<open>oc\<close> process ended: with exit status 0 and this standard output, or with
  another exit status, which \<open>check=True\<close> turns into \<open>CalledProcessError\<close>. Of that
  exception \<open>e\<close> the script reads two texts: \<open>e.stderr\<close>, what the process wrote to
  standard error, and \<open>str(e)\<close>, which Python makes from the command and the exit
  status (\<open>Command '[...]' returned non-zero exit status N.\<close>).
\<close>

record failure =
  stderr :: string
  str_e :: string

datatype proc_result = Exit0 string | ExitNonzero failure

record reply =
  result :: proc_result
  took :: nat

text \<open>
  \<open>oc_reply w n cmd\<close> is what the cluster answers when the \<open>n\<close>-th invocation of the run
  is \<open>cmd\<close>: the world is any deterministic environment. \<open>history\<close> holds the commands
  run so far with their results, the most recent first. \<open>clock\<close> is \<open>time.time()\<close> in
  milliseconds; an invocation takes one millisecond plus \<open>took\<close>, since it starts a
  process. \<open>log_lines\<close> holds the emitted log lines, the oldest first.
\<close>

record world =
  oc_reply :: "nat \<Rightarrow> string list \<Rightarrow> reply"
  history :: "(string list \<times> proc_result) list"
  clock :: int
  log_lines :: "(level \<times> string) list"

text \<open>\<open>logging.basicConfig(level=logging.INFO)\<close>: a debug line is not emitted.\<close>

definition log :: "level \<Rightarrow> string \<Rightarrow> world \<Rightarrow> world" where
  "log lvl msg w = (if lvl = DEBUG then w else w\<lparr>log_lines := log_lines w @ [(lvl, msg)]\<rparr>)"

text \<open>\<open>time.sleep(seconds)\<close>.\<close>

definition sleep :: "int \<Rightarrow> world \<Rightarrow> world" where
  "sleep seconds w = w\<lparr>clock := clock w + seconds * 1000\<rparr>"

text \<open>
  What happened between an earlier world \<open>w\<close> and a later one \<open>w'\<close>: the invocations
  with their results and the commands alone, in the order they were run, and the lines
  logged.
\<close>

definition since :: "world \<Rightarrow> world \<Rightarrow> (string list \<times> proc_result) list" where
  "since w w' = rev (take (length (history w') - length (history w)) (history w'))"

definition commands_since :: "world \<Rightarrow> world \<Rightarrow> string list list" where
  "commands_since w w' = map fst (since w w')"

definition logs_since :: "world \<Rightarrow> world \<Rightarrow> (level \<times> string) list" where
  "logs_since w w' = drop (length (log_lines w)) (log_lines w')"

text \<open>
  \<open>later w w'\<close>: the world \<open>w'\<close> comes from \<open>w\<close> by running commands, sleeping and
  logging. The cluster is the same, the history and the log have only grown, and the
  clock has advanced by at least a millisecond for every command run.
\<close>

definition later :: "world \<Rightarrow> world \<Rightarrow> bool" where
  "later w w' \<longleftrightarrow>
     oc_reply w' = oc_reply w \<and>
     history w' = rev (since w w') @ history w \<and>
     clock w + int (length (since w w')) \<le> clock w' \<and>
     log_lines w' = log_lines w @ logs_since w w'"

text \<open>\<open>ran_only ok w w'\<close>: moreover every command run in between satisfies \<open>ok\<close>.\<close>

definition ran_only :: "(string list \<Rightarrow> bool) \<Rightarrow> world \<Rightarrow> world \<Rightarrow> bool" where
  "ran_only ok w w' \<longleftrightarrow> later w w' \<and> list_all ok (commands_since w w')"

subsection \<open>\<open>MDPipelineOrchestrator\<close>\<close>

record orchestrator =
  namespace :: string
  kubeconfig :: "string option"
  kubectl_cmd :: "string list"

text \<open>\<open>__init__\<close>: \<open>if kubeconfig:\<close> holds for a non-empty string.\<close>

definition init :: "string \<Rightarrow> string option \<Rightarrow> orchestrator" where
  "init ns kc =
     \<lparr>namespace = ns, kubeconfig = kc,
      kubectl_cmd = [''oc''] @
        (case kc of None \<Rightarrow> [] | Some p \<Rightarrow> if p \<noteq> [] then [''--kubeconfig'', p] else [])\<rparr>"


definition run_kubectl ::
  "orchestrator \<Rightarrow> string list \<Rightarrow> bool \<Rightarrow> world \<Rightarrow> world \<times> (exn + string option)" where
  "run_kubectl self args capture_output w =
     (let cmd = kubectl_cmd self @ args;
          w1 = log DEBUG (''Running: '' @ join_sp cmd) w;
          r = oc_reply w1 (length (history w1)) cmd;
          w2 = w1\<lparr>history := (cmd, result r) # history w1,
                  clock := clock w1 + 1 + int (took r)\<rparr>
      in case result r of
           Exit0 out \<Rightarrow> (w2, Inr (if capture_output then Some (strip out) else None))
         | ExitNonzero err \<Rightarrow>
             (let w3 = log ERROR (''oc command failed: '' @ str_e err) w2;
                  w4 = (if capture_output \<and> stderr err \<noteq> []
                        then log ERROR (''stderr: '' @ stderr err) w3
                        else w3)
              in (w4, Inl CalledProcessError)))"

definition driver_selector :: "string \<Rightarrow> string" where
  "driver_selector job_name = ''spark-app-name='' @ job_name @ '',spark-role=driver''"

definition executor_selector :: "string \<Rightarrow> string" where
  "executor_selector job_name = ''spark-app-name='' @ job_name @ '',spark-role=executor''"

definition show_job_logs ::
  "orchestrator \<Rightarrow> string \<Rightarrow> nat \<Rightarrow> world \<Rightarrow> world \<times> (exn + unit)" where
  "show_job_logs self job_name tail_lines w =
     (let w1 = log INFO (''Recent logs for job '' @ [CHR 0x27] @ job_name @ [CHR 0x27] @ '':'') w
      in case (case run_kubectl self
                 [''logs'', ''-l'', driver_selector job_name,
                  ''-n'', namespace self, ''--tail'', str_nat tail_lines] False w1 of
                 (w2, Inr _) \<Rightarrow> (w2, Inr ())
               | (w2, Inl CalledProcessError) \<Rightarrow>
                   (log WARNING ''Could not retrieve driver logs'' w2, Inr ())
               | (w2, Inl e) \<Rightarrow> (w2, Inl e)) of
           (w3, Inl e) \<Rightarrow> (w3, Inl e)
         | (w3, Inr _) \<Rightarrow>
             (let w4 = log INFO ''Recent executor logs:'' w3
              in case run_kubectl self
                   [''logs'', ''-l'', executor_selector job_name,
                    ''-n'', namespace self, ''--tail'', ''20''] False w4 of
                   (w5, Inr _) \<Rightarrow> (w5, Inr ())
                 | (w5, Inl CalledProcessError) \<Rightarrow>
                     (log WARNING ''Could not retrieve executor logs'' w5, Inr ())
                 | (w5, Inl e) \<Rightarrow> (w5, Inl e)))"

text \<open>\<open>get_executor_count\<close>: \<open>if result\<close> fails for \<open>None\<close> and for the empty string;
  \<open>if line.strip()\<close> keeps the lines that hold a character that is not white space.\<close>

definition count_lines :: "string \<Rightarrow> nat" where
  "count_lines s = length (filter (\<lambda>line. strip line \<noteq> []) (split_nl s))"

definition get_executor_count ::
  "orchestrator \<Rightarrow> string \<Rightarrow> world \<Rightarrow> world \<times> (exn + nat)" where
  "get_executor_count self job_name w =
     (case run_kubectl self
        [''get'', ''pods'', ''-l'', executor_selector job_name,
         ''-n'', namespace self, ''--no-headers''] True w of
        (w1, Inr res) \<Rightarrow>
          (w1, Inr (case res of None \<Rightarrow> 0
                    | Some s \<Rightarrow> if s \<noteq> [] then count_lines s else 0))
      | (w1, Inl CalledProcessError) \<Rightarrow> (w1, Inr 0)
      | (w1, Inl e) \<Rightarrow> (w1, Inl e))"

definition apply_manifest ::
  "orchestrator \<Rightarrow> string \<Rightarrow> world \<Rightarrow> world \<times> (exn + unit)" where
  "apply_manifest self manifest_path w =
     (case run_kubectl self [''apply'', ''-f'', manifest_path] True
             (log INFO (''Applying manifest: '' @ manifest_path) w) of
        (w1, Inl e) \<Rightarrow> (w1, Inl e)
      | (w1, Inr _) \<Rightarrow> (w1, Inr ()))"

definition delete_spark_job ::
  "orchestrator \<Rightarrow> string \<Rightarrow> world \<Rightarrow> world \<times> (exn + unit)" where
  "delete_spark_job self job_name w =
     (case run_kubectl self
        [''delete'', ''sparkapplication'', job_name, ''-n'', namespace self] True w of
        (w1, Inr _) \<Rightarrow>
          (sleep 10 (log INFO (''Deleted existing job '' @ [CHR 0x27] @ job_name @ [CHR 0x27]) w1),
           Inr ())
      | (w1, Inl CalledProcessError) \<Rightarrow>
          (log INFO (''Job '' @ [CHR 0x27] @ job_name @ [CHR 0x27] @ '' not found (this is okay)'') w1,
           Inr ())
      | (w1, Inl e) \<Rightarrow> (w1, Inl e))"

subsection \<open>\<open>wait_for_spark_job\<close>\<close>

definition quoted :: "string \<Rightarrow> string" where
  "quoted s = [CHR 0x27] @ s @ [CHR 0x27]"

definition status_args :: "orchestrator \<Rightarrow> string \<Rightarrow> string list" where
  "status_args self job_name =
     [''get'', ''sparkapplication'', job_name, ''-n'', namespace self,
      ''-o'', ''jsonpath={.status.applicationState.state}'']"

text \<open>
  The body of the \<open>try\<close> in the loop, for one round, in two parts: the two queries, and
  the statements after them (\<open>wait_decide\<close>). Each part returns the world, the two
  locals \<open>last_status\<close> and \<open>last_executor_count\<close> as it leaves them, and how it ends:
  \<open>Inl e\<close> when \<open>e\<close> is raised, \<open>Inr (Some b)\<close> on \<open>return b\<close>, and \<open>Inr None\<close> when it
  falls through after \<open>time.sleep(30)\<close>. \<open>elapsed\<close> is in milliseconds.
\<close>

definition str_opt :: "string option \<Rightarrow> string" where
  "str_opt s = (case s of None \<Rightarrow> ''None'' | Some t \<Rightarrow> t)"

definition wait_decide ::
  "orchestrator \<Rightarrow> string \<Rightarrow> int \<Rightarrow> string option \<Rightarrow> nat \<Rightarrow> string option \<Rightarrow> nat \<Rightarrow> world
     \<Rightarrow> world \<times> string option \<times> nat \<times> (exn + bool option)" where
  "wait_decide self job_name elapsed last_status last_executor_count status executor_count w =
     (let changed = (status \<noteq> last_status \<or> executor_count \<noteq> last_executor_count);
          w1 = (if changed
                then log INFO (''['' @ fmt_1f elapsed 60000 @ ''m] Job '' @ quoted job_name
                       @ '' - Status: '' @ str_opt status
                       @ '', Executors: '' @ str_nat executor_count) w
                else w);
          ls = (if changed then status else last_status);
          lc = (if changed then executor_count else last_executor_count)
      in if status = Some ''COMPLETED''
         then (log INFO (''Job '' @ quoted job_name @ '' completed successfully in ''
                 @ fmt_1f elapsed 60000 @ '' minutes!'') w1,
               ls, lc, Inr (Some True))
         else if status \<in> set [Some ''FAILED'', Some ''CANCELLED'', Some ''ERROR'']
         then (case show_job_logs self job_name 50
                      (log ERROR (''Job '' @ quoted job_name @ '' failed with status: ''
                         @ str_opt status) w1) of
                 (w2, Inl e) \<Rightarrow> (w2, ls, lc, Inl e)
               | (w2, Inr _) \<Rightarrow> (w2, ls, lc, Inr (Some False)))
         else (sleep 30 w1, ls, lc, Inr None))"

definition wait_try ::
  "orchestrator \<Rightarrow> string \<Rightarrow> int \<Rightarrow> string option \<Rightarrow> nat \<Rightarrow> world
     \<Rightarrow> world \<times> string option \<times> nat \<times> (exn + bool option)" where
  "wait_try self job_name elapsed last_status last_executor_count w =
     (case run_kubectl self (status_args self job_name) True w of
        (w1, Inl e) \<Rightarrow> (w1, last_status, last_executor_count, Inl e)
      | (w1, Inr status) \<Rightarrow>
          (case get_executor_count self job_name w1 of
             (w2, Inl e) \<Rightarrow> (w2, last_status, last_executor_count, Inl e)
           | (w2, Inr executor_count) \<Rightarrow>
               wait_decide self job_name elapsed last_status last_executor_count
                 status executor_count w2))"

lemma clock_log [simp]: "clock (log lvl msg w) = clock w"
  by (simp add: log_def)

lemma clock_sleep [simp]: "clock (sleep s w) = clock w + s * 1000"
  by (simp add: sleep_def)

lemma clock_run_kubectl:
  "run_kubectl self args cap w = (w', r) \<Longrightarrow> clock w < clock w'"
  by (auto simp: run_kubectl_def Let_def split: proc_result.splits if_splits)

lemma clock_get_executor_count:
  "get_executor_count self job_name w = (w', r) \<Longrightarrow> clock w < clock w'"
  by (auto simp: get_executor_count_def split: prod.splits sum.splits exn.splits
      dest: clock_run_kubectl)

lemma clock_show_job_logs:
  "show_job_logs self job_name n w = (w', r) \<Longrightarrow> clock w < clock w'"
  unfolding show_job_logs_def Let_def
  by (auto split: prod.splits sum.splits exn.splits dest!: clock_run_kubectl)

lemma clock_wait_decide:
  assumes "wait_decide self job_name elapsed ls lc st n w = (w', ls', lc', r)"
  shows "clock w \<le> clock w'"
proof -
  consider (ok) "st = Some ''COMPLETED''"
    | (bad) "st \<noteq> Some ''COMPLETED''"
        "st \<in> set [Some ''FAILED'', Some ''CANCELLED'', Some ''ERROR'']"
    | (other) "st \<noteq> Some ''COMPLETED''"
        "st \<notin> set [Some ''FAILED'', Some ''CANCELLED'', Some ''ERROR'']"
    by blast
  then show ?thesis
  proof cases
    case ok
    with assms show ?thesis
      by (auto simp: wait_decide_def Let_def)
  next
    case bad
    with assms show ?thesis
      by (auto simp: wait_decide_def Let_def simp del: set_simps
          split: prod.splits sum.splits if_splits dest!: clock_show_job_logs)
  next
    case other
    with assms show ?thesis
      by (auto simp: wait_decide_def Let_def simp del: set_simps)
  qed
qed

lemma clock_wait_try:
  "wait_try self job_name elapsed ls lc w = (w', ls', lc', r) \<Longrightarrow> clock w < clock w'"
  unfolding wait_try_def
  by (auto split: prod.splits sum.splits
      dest!: clock_run_kubectl clock_get_executor_count clock_wait_decide)

text \<open>
  The loop \<open>while True\<close>. \<open>timeout_minutes\<close> is the parameter, \<open>start_time\<close> the clock
  reading taken before the loop. The handler \<open>except subprocess.CalledProcessError\<close>
  logs a warning, sleeps ten seconds and goes round again; any other exception leaves
  the function. The loop ends because every round runs \<open>oc\<close>, which takes time.
\<close>

function wait_loop ::
  "orchestrator \<Rightarrow> string \<Rightarrow> int \<Rightarrow> int \<Rightarrow> string option \<Rightarrow> nat \<Rightarrow> world
     \<Rightarrow> world \<times> (exn + bool)" where
  "wait_loop self job_name timeout_minutes start_time last_status last_executor_count w =
     (let elapsed = clock w - start_time;
          timeout_seconds = timeout_minutes * 60
      in if elapsed > timeout_seconds * 1000
         then (log ERROR (''Timeout waiting for job '' @ quoted job_name @ '' after ''
                 @ str_int timeout_minutes @ '' minutes'') w,
               Inr False)
         else (case wait_try self job_name elapsed last_status last_executor_count w of
                 (w1, ls, lc, Inr (Some b)) \<Rightarrow> (w1, Inr b)
               | (w1, ls, lc, Inr None) \<Rightarrow>
                   wait_loop self job_name timeout_minutes start_time ls lc w1
               | (w1, ls, lc, Inl CalledProcessError) \<Rightarrow>
                   wait_loop self job_name timeout_minutes start_time ls lc
                     (sleep 10 (log WARNING (''Could not get status for job '' @ quoted job_name
                        @ '', retrying...'') w1))
               | (w1, ls, lc, Inl e) \<Rightarrow> (w1, Inl e)))"
  by pat_completeness auto
termination
proof (relation "measure (\<lambda>(self, job_name, timeout_minutes, start_time, ls, lc, w).
          nat (timeout_minutes * 60 * 1000 + 1 - (clock w - start_time)))")
qed (auto dest!: clock_wait_try [OF sym])

declare wait_loop.simps [simp del]

definition wait_for_spark_job ::
  "orchestrator \<Rightarrow> string \<Rightarrow> int \<Rightarrow> world \<Rightarrow> world \<times> (exn + bool)" where
  "wait_for_spark_job self job_name timeout_minutes w =
     (let w1 = log INFO (''Waiting for Spark job '' @ quoted job_name @ '' to complete (timeout: ''
                  @ str_int timeout_minutes @ ''m)...'') w;
          start_time = clock w1
      in wait_loop self job_name timeout_minutes start_time (Some []) 0 w1)"

subsection \<open>The stages\<close>

definition run_smoke_test :: "orchestrator \<Rightarrow> world \<Rightarrow> world \<times> (exn + bool)" where
  "run_smoke_test self w =
     (case delete_spark_job self ''mdp-smoke'' (log INFO ''=== Running Smoke Test ==='' w) of
        (w1, Inl e) \<Rightarrow> (w1, Inl e)
      | (w1, Inr _) \<Rightarrow>
          (case apply_manifest self ''k8s/spark/49-smoke.yaml'' w1 of
             (w2, Inl e) \<Rightarrow> (w2, Inl e)
           | (w2, Inr _) \<Rightarrow>
               (case wait_for_spark_job self ''mdp-smoke'' 10 w2 of
                  (w3, Inl e) \<Rightarrow> (w3, Inl e)
                | (w3, Inr ok) \<Rightarrow>
                    if ok then (log INFO ''Smoke test passed!'' w3, Inr True)
                    else (log ERROR ''Smoke test failed!'' w3, Inr False))))"

text \<open>
  The loop of \<open>run_bronze_ingest\<close> that waits for executors, at most ten minutes.
  \<open>executor_count >= target_executors * 0.8\<close> is compared exactly, as
  \<open>10 * executor_count \<ge> 8 * target_executors\<close>.
\<close>

function executors_loop ::
  "orchestrator \<Rightarrow> int \<Rightarrow> nat \<Rightarrow> world \<Rightarrow> world \<times> (exn + unit)" where
  "executors_loop self start_time target_executors w =
     (if clock w - start_time < 600 * 1000
      then (case get_executor_count self ''mdp-bronze-ingest'' w of
              (w1, Inl e) \<Rightarrow> (w1, Inl e)
            | (w1, Inr executor_count) \<Rightarrow>
                (let w2 = (if executor_count > 0
                           then log INFO (''Executors starting: '' @ str_nat executor_count
                                  @ ''/'' @ str_nat target_executors) w1
                           else w1)
                 in if 10 * executor_count \<ge> 8 * target_executors
                    then (log INFO (''Sufficient executors running: '' @ str_nat executor_count
                            @ ''/'' @ str_nat target_executors) w2,
                          Inr ())
                    else executors_loop self start_time target_executors (sleep 20 w2)))
      else (w, Inr ()))"
  by pat_completeness auto
termination
proof (relation "measure (\<lambda>(self, start_time, target_executors, w).
          nat (600 * 1000 - (clock w - start_time)))")
qed (auto dest!: clock_get_executor_count [OF sym])

declare executors_loop.simps [simp del]

text \<open>The \<open>for line in logs.split('\n')\<close> of \<open>run_bronze_ingest\<close>.\<close>

definition log_performance :: "string list \<Rightarrow> world \<Rightarrow> world" where
  "log_performance lines w =
     foldl (\<lambda>w line.
              if contains ''Throughput:'' line \<or> contains ''Est. Size:'' line
                 \<or> contains ''Rows:'' line
              then log INFO (''Performance: '' @ strip line) w else w)
       w lines"

definition run_bronze_ingest :: "orchestrator \<Rightarrow> world \<Rightarrow> world \<times> (exn + bool)" where
  "run_bronze_ingest self w =
     (case delete_spark_job self ''mdp-bronze-ingest''
             (log INFO ''=== Running Bronze Ingest (1TB Target - No Compression) ==='' w) of
        (w1, Inl e) \<Rightarrow> (w1, Inl e)
      | (w1, Inr _) \<Rightarrow>
          (case apply_manifest self ''k8s/spark/42-bronze-ingest.yaml'' w1 of
             (w2, Inl e) \<Rightarrow> (w2, Inl e)
           | (w2, Inr _) \<Rightarrow>
               (let start_time = clock w2;
                    target_executors = 48
                in case executors_loop self start_time target_executors
                          (log INFO ''Waiting for executors to start...'' w2) of
                     (w3, Inl e) \<Rightarrow> (w3, Inl e)
                   | (w3, Inr _) \<Rightarrow>
                       (case wait_for_spark_job self ''mdp-bronze-ingest'' 180 w3 of
                          (w4, Inl e) \<Rightarrow> (w4, Inl e)
                        | (w4, Inr ok) \<Rightarrow>
                            if ok
                            then (case (case run_kubectl self
                                          [''logs'', ''-l'',
                                           ''spark-app-name=mdp-bronze-ingest,spark-role=driver'',
                                           ''-n'', namespace self, ''--tail'', ''20''] True
                                          (log INFO ''Bronze ingest completed!'' w4) of
                                          (w5, Inr None) \<Rightarrow> (w5, Inl AttributeError)
                                        | (w5, Inr (Some logs)) \<Rightarrow>
                                            (log_performance (split_nl logs) w5, Inr ())
                                        | (w5, Inl CalledProcessError) \<Rightarrow>
                                            (log WARNING
                                               ''Could not retrieve performance metrics from logs''
                                               w5,
                                             Inr ())
                                        | (w5, Inl e) \<Rightarrow> (w5, Inl e)) of
                                    (w6, Inl e) \<Rightarrow> (w6, Inl e)
                                  | (w6, Inr _) \<Rightarrow> (w6, Inr True))
                            else (log ERROR ''Bronze ingest failed!'' w4, Inr False)))))"

definition run_silver_build :: "orchestrator \<Rightarrow> world \<Rightarrow> world \<times> (exn + bool)" where
  "run_silver_build self w =
     (case delete_spark_job self ''mdp-silver-build''
             (log INFO ''=== Running Silver Build (Iceberg) ==='' w) of
        (w1, Inl e) \<Rightarrow> (w1, Inl e)
      | (w1, Inr _) \<Rightarrow>
          (case apply_manifest self ''k8s/spark/43-silver-build.yaml'' w1 of
             (w2, Inl e) \<Rightarrow> (w2, Inl e)
           | (w2, Inr _) \<Rightarrow>
               (case wait_for_spark_job self ''mdp-silver-build'' 60 w2 of
                  (w3, Inl e) \<Rightarrow> (w3, Inl e)
                | (w3, Inr ok) \<Rightarrow>
                    if ok then (log INFO ''Silver build completed!'' w3, Inr True)
                    else (log ERROR ''Silver build failed!'' w3, Inr False))))"

definition run_gold_finalize :: "orchestrator \<Rightarrow> world \<Rightarrow> world \<times> (exn + bool)" where
  "run_gold_finalize self w =
     (case delete_spark_job self ''mdp-gold-finalize''
             (log INFO ''=== Running Gold Finalize ==='' w) of
        (w1, Inl e) \<Rightarrow> (w1, Inl e)
      | (w1, Inr _) \<Rightarrow>
          (case apply_manifest self ''k8s/spark/44-gold-finalize.yaml'' w1 of
             (w2, Inl e) \<Rightarrow> (w2, Inl e)
           | (w2, Inr _) \<Rightarrow>
               (case wait_for_spark_job self ''mdp-gold-finalize'' 30 w2 of
                  (w3, Inl e) \<Rightarrow> (w3, Inl e)
                | (w3, Inr ok) \<Rightarrow>
                    if ok then (log INFO ''Gold finalize completed!'' w3, Inr True)
                    else (log ERROR ''Gold finalize failed!'' w3, Inr False))))"

subsection \<open>Validation and the resource check\<close>

text \<open>One of the three inner \<open>try\<close> blocks of \<open>validate_pipeline\<close>: an info line, a query
  through the Trino pod, and a warning when the query fails.\<close>

definition check_table ::
  "orchestrator \<Rightarrow> string \<Rightarrow> string \<Rightarrow> string list \<Rightarrow> string \<Rightarrow> world
     \<Rightarrow> world \<times> (exn + unit)" where
  "check_table self trino_pod info query_args warning w =
     (case run_kubectl self
             ([''exec'', trino_pod, ''-n'', namespace self, ''--''] @ query_args) False
             (log INFO info w) of
        (w1, Inr _) \<Rightarrow> (w1, Inr ())
      | (w1, Inl CalledProcessError) \<Rightarrow> (log WARNING warning w1, Inr ())
      | (w1, Inl e) \<Rightarrow> (w1, Inl e))"

text \<open>The body of the outer \<open>try\<close> of \<open>validate_pipeline\<close>.\<close>

definition validate_try :: "orchestrator \<Rightarrow> world \<Rightarrow> world \<times> (exn + bool)" where
  "validate_try self w =
     (case run_kubectl self
             [''get'', ''pods'', ''-l'',
              ''app.kubernetes.io/component=coordinator,app.kubernetes.io/instance=mdp-trino'',
              ''-n'', namespace self, ''-o'', ''jsonpath={.items[0].metadata.name}''] True w of
        (w1, Inl e) \<Rightarrow> (w1, Inl e)
      | (w1, Inr trino_pod) \<Rightarrow>
          if trino_pod = None \<or> trino_pod = Some []
          then (log ERROR ''Could not find Trino coordinator pod'' w1, Inr False)
          else
            (let pod = str_opt trino_pod
             in case run_kubectl self
                  [''exec'', pod, ''-n'', namespace self, ''--'',
                   ''trino'', ''--catalog'', ''iceberg'', ''--schema'', ''information_schema'',
                   ''--execute'', ''SELECT 1 as test''] False
                  (log INFO ''Testing Trino connectivity...''
                     (log INFO (''Using Trino pod: '' @ pod) w1)) of
                  (w2, Inl e) \<Rightarrow> (w2, Inl e)
                | (w2, Inr _) \<Rightarrow>
                    (case check_table self pod ''Checking Bronze data size...''
                            [''trino'', ''--catalog'', ''iceberg'', ''--execute'',
                             ''SELECT 'Bronze validation - basic connectivity test' as status'']
                            ''Bronze data not accessible via Trino (this is normal)'' w2 of
                       (w3, Inl e) \<Rightarrow> (w3, Inl e)
                     | (w3, Inr _) \<Rightarrow>
                         (case check_table self pod ''Checking Silver table...''
                                 [''trino'', ''--catalog'', ''iceberg'', ''--schema'', ''silver'',
                                  ''--execute'',
                                  ''SELECT COUNT(*) as silver_row_count FROM iot_daily_city_sensors LIMIT 1'']
                                 ''Silver table not accessible (run Silver job first)'' w3 of
                            (w4, Inl e) \<Rightarrow> (w4, Inl e)
                          | (w4, Inr _) \<Rightarrow>
                              (case check_table self pod ''Checking Gold table...''
                                      [''trino'', ''--catalog'', ''iceberg'', ''--schema'', ''gold'',
                                       ''--execute'',
                                       ''SELECT COUNT(*) as gold_row_count FROM iot_executive_kpis LIMIT 1'']
                                      ''Gold table not accessible (run Gold job first)'' w4 of
                                 (w5, Inl e) \<Rightarrow> (w5, Inl e)
                               | (w5, Inr _) \<Rightarrow>
                                   (log INFO ''Pipeline validation completed!'' w5, Inr True))))))"

definition validate_pipeline :: "orchestrator \<Rightarrow> world \<Rightarrow> world \<times> (exn + bool)" where
  "validate_pipeline self w =
     (case validate_try self (log INFO ''=== Validating Pipeline Results ==='' w) of
        (w1, Inr b) \<Rightarrow> (w1, Inr b)
      | (w1, Inl CalledProcessError) \<Rightarrow>
          (log ERROR ''Pipeline validation failed: '' w1, Inr False)
      | (w1, Inl e) \<Rightarrow> (w1, Inl e))"

definition check_cluster_resources :: "orchestrator \<Rightarrow> world \<Rightarrow> world \<times> (exn + unit)" where
  "check_cluster_resources self w =
     (case run_kubectl self [''get'', ''nodes'', ''-o'', ''wide''] True
             (log INFO ''Checking cluster resources...'' w) of
        (w1, Inl CalledProcessError) \<Rightarrow>
          (log WARNING ''Could not retrieve cluster resource info'' w1, Inr ())
      | (w1, Inl e) \<Rightarrow> (w1, Inl e)
      | (w1, Inr nodes_info) \<Rightarrow>
          (case run_kubectl self [''top'', ''nodes''] False
                  (log INFO ''Checking resource allocation...''
                     (log INFO (str_opt nodes_info) (log INFO ''Available nodes:'' w1))) of
             (w2, Inl CalledProcessError) \<Rightarrow>
               (log WARNING ''Could not retrieve cluster resource info'' w2, Inr ())
           | (w2, Inl e) \<Rightarrow> (w2, Inl e)
           | (w2, Inr _) \<Rightarrow> (w2, Inr ())))"

subsection \<open>\<open>run_full_pipeline\<close> and \<open>main\<close>\<close>

text \<open>
  The performance summary at the end of \<open>run_full_pipeline\<close>. The durations are in
  milliseconds. \<open>1024*60/bronze_time\<close> and \<open>1024 / (total_time / 60)\<close> raise
  \<open>ZeroDivisionError\<close> when the divisor is zero; the lines before the failing one are
  already logged.
\<close>

definition summary :: "int \<Rightarrow> int \<Rightarrow> int \<Rightarrow> int \<Rightarrow> world \<Rightarrow> world \<times> (exn + bool)" where
  "summary bronze_time silver_time gold_time total_time w =
     (let w1 = log INFO ''Performance Summary:''
                 (log INFO ''\<newline>=== PIPELINE COMPLETED SUCCESSFULLY! ==='' w)
      in if bronze_time = 0 then (w1, Inl ZeroDivisionError)
         else
           (let w2 = log INFO (''  Bronze (1TB):   '' @ fmt_1f bronze_time 60000 @ '' minutes (''
                        @ fmt_1f (1024 * 60 * 1000) bronze_time @ '' GB/min)'') w1;
                w3 = log INFO (''  Silver:         '' @ fmt_1f silver_time 60000 @ '' minutes'') w2;
                w4 = log INFO (''  Gold:           '' @ fmt_1f gold_time 60000 @ '' minutes'') w3;
                w5 = log INFO (''  Total Runtime:  '' @ fmt_1f total_time 60000 @ '' minutes'') w4
            in if total_time = 0 then (w5, Inl ZeroDivisionError)
               else (log INFO (''  Overall Throughput: '' @ fmt_1f (1024 * 60 * 1000) total_time
                       @ '' GB/min'') w5,
                     Inr True)))"

definition run_full_pipeline :: "orchestrator \<Rightarrow> world \<Rightarrow> world \<times> (exn + bool)" where
  "run_full_pipeline self w =
     (case check_cluster_resources self
             (log INFO ''Target: 1TB Bronze (no compression) -> Silver Iceberg -> Gold Analytics''
                (log INFO ''Starting MD-Pipeline (1TB Medallion Benchmark)'' w)) of
        (w0, Inl e) \<Rightarrow> (w0, Inl e)
      | (w0, Inr _) \<Rightarrow>
     (let start_time = clock w0
      in case run_smoke_test self (log INFO ''\<newline>--- STEP 1: Smoke Test ---'' w0) of
        (w1, Inl e) \<Rightarrow> (w1, Inl e)
      | (w1, Inr smoke_ok) \<Rightarrow>
     if \<not> smoke_ok then (log ERROR ''Smoke test failed - aborting pipeline'' w1, Inr False)
     else
     (let w1' = log INFO ''\<newline>--- STEP 2: Bronze Ingest (1TB Target) ---'' w1;
          bronze_start = clock w1'
      in case run_bronze_ingest self w1' of
        (w2, Inl e) \<Rightarrow> (w2, Inl e)
      | (w2, Inr bronze_ok) \<Rightarrow>
     if \<not> bronze_ok then (log ERROR ''Bronze ingest failed - aborting pipeline'' w2, Inr False)
     else
     (let bronze_time = clock w2 - bronze_start;
          w2' = log INFO ''\<newline>--- STEP 3: Silver Build ---'' w2;
          silver_start = clock w2'
      in case run_silver_build self w2' of
        (w3, Inl e) \<Rightarrow> (w3, Inl e)
      | (w3, Inr silver_ok) \<Rightarrow>
     if \<not> silver_ok then (log ERROR ''Silver build failed - aborting pipeline'' w3, Inr False)
     else
     (let silver_time = clock w3 - silver_start;
          w3' = log INFO ''\<newline>--- STEP 4: Gold Finalize ---'' w3;
          gold_start = clock w3'
      in case run_gold_finalize self w3' of
        (w4, Inl e) \<Rightarrow> (w4, Inl e)
      | (w4, Inr gold_ok) \<Rightarrow>
     if \<not> gold_ok then (log ERROR ''Gold finalize failed - aborting pipeline'' w4, Inr False)
     else
     (let gold_time = clock w4 - gold_start
      in case validate_pipeline self (log INFO ''\<newline>--- STEP 5: Pipeline Validation ---'' w4) of
        (w5, Inl e) \<Rightarrow> (w5, Inl e)
      | (w5, Inr validation_success) \<Rightarrow>
          (let w5' = (if \<not> validation_success
                      then log WARNING
                             ''Pipeline validation had issues, but core processing completed'' w5
                      else w5);
               total_time = clock w5' - start_time
           in summary bronze_time silver_time gold_time total_time w5')))))))"

text \<open>
  The command line as \<open>argparse\<close> hands it over: \<open>--stage\<close> is one of six choices
  (default \<open>full\<close>), \<open>--check-resources\<close> a flag.
\<close>

datatype stage = Smoke | Bronze | Silver | Gold | Validate | Full

record args =
  arg_kubeconfig :: "string option"
  arg_namespace :: string
  arg_stage :: stage
  check_resources :: bool

definition run_stage :: "stage \<Rightarrow> orchestrator \<Rightarrow> world \<Rightarrow> world \<times> (exn + bool)" where
  "run_stage st orchestrator w =
     (case st of
        Smoke \<Rightarrow> run_smoke_test orchestrator w
      | Bronze \<Rightarrow> run_bronze_ingest orchestrator w
      | Silver \<Rightarrow> run_silver_build orchestrator w
      | Gold \<Rightarrow> run_gold_finalize orchestrator w
      | Validate \<Rightarrow> validate_pipeline orchestrator w
      | Full \<Rightarrow> run_full_pipeline orchestrator w)"

text \<open>
  What follows the stage in \<open>main\<close>: the two handlers of the \<open>try\<close> and the final
  \<open>sys.exit(0 if success else 1)\<close>. The result is the exit code of the process.
  \<open>KeyboardInterrupt\<close> is raised by the runtime when the user interrupts the run, at
  any point; the stage functions of this model do not raise it themselves.
\<close>

definition finish :: "string \<Rightarrow> world \<times> (exn + bool) \<Rightarrow> world \<times> int" where
  "finish ns outcome =
     (case outcome of
        (w, Inl KeyboardInterrupt) \<Rightarrow>
          (log INFO (''Check status with: oc get sparkapplication -n '' @ ns)
             (log INFO ''Note: Spark jobs may continue running in the cluster''
                (log INFO ''\<newline>Pipeline orchestration interrupted by user'' w)),
           1)
      | (w, Inl e) \<Rightarrow> (log ERROR ''Unexpected error: '' w, 1)
      | (w, Inr success) \<Rightarrow> (w, if success then 0 else 1))"

text \<open>\<open>main\<close>: with \<open>--check-resources\<close> it returns after the check, and the process
  ends with exit code 0; an exception that leaves \<open>check_cluster_resources\<close> is not
  handled and ends the process with exit code 1.\<close>

definition main :: "args \<Rightarrow> world \<Rightarrow> world \<times> int" where
  "main a w =
     (let orchestrator = init (arg_namespace a) (arg_kubeconfig a)
      in if check_resources a
         then (case check_cluster_resources orchestrator w of
                 (w1, Inr _) \<Rightarrow> (w1, 0)
               | (w1, Inl e) \<Rightarrow> (w1, 1))
         else finish (arg_namespace a) (run_stage (arg_stage a) orchestrator w))"

section \<open>Properties\<close>

subsection \<open>Worlds\<close>

lemma log_fields [simp]:
  "oc_reply (log l m w) = oc_reply w"
  "history (log l m w) = history w"
  "log_lines (log l m w) = log_lines w @ (if l = DEBUG then [] else [(l, m)])"
  by (simp_all add: log_def)

lemma sleep_fields [simp]:
  "oc_reply (sleep s w) = oc_reply w"
  "history (sleep s w) = history w"
  "log_lines (sleep s w) = log_lines w"
  by (simp_all add: sleep_def)

lemma since_self [simp]: "since w w = []"
  by (simp add: since_def)

lemma since_log [simp]:
  "since w (log l m w') = since w w'" "since (log l m w) w' = since w w'"
  by (simp_all add: since_def)

lemma since_sleep [simp]:
  "since w (sleep s w') = since w w'" "since (sleep s w) w' = since w w'"
  by (simp_all add: since_def)

lemma since_append:
  "history w' = new @ history w \<Longrightarrow> since w w' = rev new"
  by (simp add: since_def)

lemma logs_since_append:
  "log_lines w' = log_lines w @ new \<Longrightarrow> logs_since w w' = new"
  by (simp add: logs_since_def)

lemma laterI:
  assumes "oc_reply w' = oc_reply w" "history w' = new @ history w"
    "clock w + int (length new) \<le> clock w'" "log_lines w' = log_lines w @ l"
  shows "later w w'"
  unfolding later_def
  using assms since_append [OF assms(2)] logs_since_append [OF assms(4)] by simp

lemma later_refl [simp]: "later w w"
  by (rule laterI [where new = "[]" and l = "[]"]) simp_all

lemma later_trans:
  assumes "later w w1" "later w1 w2"
  shows "later w w2"
proof (rule laterI)
  show "oc_reply w2 = oc_reply w"
    using assms by (simp add: later_def)
  show "history w2 = (rev (since w1 w2) @ rev (since w w1)) @ history w"
    using assms by (simp add: later_def)
  show "clock w + int (length (rev (since w1 w2) @ rev (since w w1))) \<le> clock w2"
    using assms by (simp add: later_def)
  show "log_lines w2 = log_lines w @ (logs_since w w1 @ logs_since w1 w2)"
    using assms by (simp add: later_def)
qed

lemma since_trans:
  assumes "later w w1" "later w1 w2"
  shows "since w w2 = since w w1 @ since w1 w2"
proof -
  have "history w2 = (rev (since w1 w2) @ rev (since w w1)) @ history w"
    using assms by (simp add: later_def)
  then have "since w w2 = rev (rev (since w1 w2) @ rev (since w w1))"
    by (rule since_append)
  then show ?thesis
    by simp
qed

lemma logs_since_trans:
  assumes "later w w1" "later w1 w2"
  shows "logs_since w w2 = logs_since w w1 @ logs_since w1 w2"
proof -
  have "log_lines w2 = log_lines w @ (logs_since w w1 @ logs_since w1 w2)"
    using assms by (simp add: later_def)
  then show ?thesis
    by (rule logs_since_append)
qed

lemma later_log: "later w w1 \<Longrightarrow> later w (log l m w1)"
  by (rule later_trans [of w w1], assumption, rule laterI [where new = "[]"]) simp_all

lemma later_sleep: "0 \<le> s \<Longrightarrow> later w w1 \<Longrightarrow> later w (sleep s w1)"
  by (rule later_trans [of w w1], assumption, rule laterI [where new = "[]" and l = "[]"]) simp_all

lemma later_clock: "later w w' \<Longrightarrow> clock w \<le> clock w'"
  by (simp add: later_def)

lemma later_oc_reply: "later w w' \<Longrightarrow> oc_reply w' = oc_reply w"
  by (simp add: later_def)

lemma ran_only_refl [simp]: "ran_only ok w w"
  by (simp add: ran_only_def commands_since_def)

lemma ran_only_trans:
  "ran_only ok w w1 \<Longrightarrow> ran_only ok w1 w2 \<Longrightarrow> ran_only ok w w2"
  unfolding ran_only_def commands_since_def
  using later_trans [of w w1 w2] since_trans [of w w1 w2] by simp

lemma ran_only_log: "ran_only ok w w1 \<Longrightarrow> ran_only ok w (log l m w1)"
  by (simp add: ran_only_def commands_since_def later_log)

lemma ran_only_sleep: "0 \<le> s \<Longrightarrow> ran_only ok w w1 \<Longrightarrow> ran_only ok w (sleep s w1)"
  by (simp add: ran_only_def commands_since_def later_sleep)

lemma ran_only_later: "ran_only ok w w' \<Longrightarrow> later w w'"
  by (simp add: ran_only_def)

text \<open>All of \<open>run_kubectl\<close> in one statement.\<close>

lemma run_kubectl_spec:
  assumes "run_kubectl self args cap w = (w', r)"
  defines "cmd \<equiv> kubectl_cmd self @ args"
  defines "res \<equiv> result (oc_reply w (length (history w)) cmd)"
  shows "later w w'" and "since w w' = [(cmd, res)]" and "clock w < clock w'"
    and "r = (case res of Exit0 out \<Rightarrow> Inr (if cap then Some (strip out) else None)
              | ExitNonzero err \<Rightarrow> Inl CalledProcessError)"
    and "logs_since w w' =
           (case res of Exit0 out \<Rightarrow> []
            | ExitNonzero err \<Rightarrow>
                (ERROR, ''oc command failed: '' @ str_e err)
                # (if cap \<and> stderr err \<noteq> [] then [(ERROR, ''stderr: '' @ stderr err)] else []))"
proof -
  have h: "oc_reply w' = oc_reply w" "history w' = [(cmd, res)] @ history w"
    "clock w + int (length [(cmd, res)]) \<le> clock w'"
    and l: "log_lines w' = log_lines w @
           (case res of Exit0 out \<Rightarrow> []
            | ExitNonzero err \<Rightarrow>
                (ERROR, ''oc command failed: '' @ str_e err)
                # (if cap \<and> stderr err \<noteq> [] then [(ERROR, ''stderr: '' @ stderr err)] else []))"
    and r: "r = (case res of Exit0 out \<Rightarrow> Inr (if cap then Some (strip out) else None)
              | ExitNonzero err \<Rightarrow> Inl CalledProcessError)"
    using assms(1) unfolding cmd_def res_def run_kubectl_def Let_def
    by (auto split: proc_result.splits if_splits simp: log_def)
  show "later w w'"
    using h l by (rule laterI)
  show "since w w' = [(cmd, res)]"
    using since_append [OF h(2)] by simp
  show "clock w < clock w'"
    using h(3) by simp
  show "logs_since w w' =
           (case res of Exit0 out \<Rightarrow> []
            | ExitNonzero err \<Rightarrow>
                (ERROR, ''oc command failed: '' @ str_e err)
                # (if cap \<and> stderr err \<noteq> [] then [(ERROR, ''stderr: '' @ stderr err)] else []))"
    using l by (rule logs_since_append)
  show "r = (case res of Exit0 out \<Rightarrow> Inr (if cap then Some (strip out) else None)
              | ExitNonzero err \<Rightarrow> Inl CalledProcessError)"
    by (rule r)
qed

lemma ran_only_run_kubectl:
  assumes "run_kubectl self args cap w1 = (w2, r)" "ok (kubectl_cmd self @ args)"
    "ran_only ok w w1"
  shows "ran_only ok w w2"
proof (rule ran_only_trans [OF assms(3)])
  show "ran_only ok w1 w2"
    using assms(2) run_kubectl_spec(1,2) [OF assms(1)]
    by (simp add: ran_only_def commands_since_def)
qed


subsection \<open>The commands\<close>

definition delete_cmd :: "orchestrator \<Rightarrow> string \<Rightarrow> string list" where
  "delete_cmd self job_name =
     kubectl_cmd self @ [''delete'', ''sparkapplication'', job_name, ''-n'', namespace self]"

definition apply_cmd :: "orchestrator \<Rightarrow> string \<Rightarrow> string list" where
  "apply_cmd self manifest_path = kubectl_cmd self @ [''apply'', ''-f'', manifest_path]"

definition status_cmd :: "orchestrator \<Rightarrow> string \<Rightarrow> string list" where
  "status_cmd self job_name = kubectl_cmd self @ status_args self job_name"

definition pods_cmd :: "orchestrator \<Rightarrow> string \<Rightarrow> string list" where
  "pods_cmd self job_name =
     kubectl_cmd self @ [''get'', ''pods'', ''-l'', executor_selector job_name,
       ''-n'', namespace self, ''--no-headers'']"

definition driver_logs_cmd :: "orchestrator \<Rightarrow> string \<Rightarrow> nat \<Rightarrow> string list" where
  "driver_logs_cmd self job_name tail_lines =
     kubectl_cmd self @ [''logs'', ''-l'', driver_selector job_name,
       ''-n'', namespace self, ''--tail'', str_nat tail_lines]"

definition executor_logs_cmd :: "orchestrator \<Rightarrow> string \<Rightarrow> string list" where
  "executor_logs_cmd self job_name =
     kubectl_cmd self @ [''logs'', ''-l'', executor_selector job_name,
       ''-n'', namespace self, ''--tail'', ''20'']"

text \<open>\<open>reply_at w k cmd\<close>: how \<open>cmd\<close> ends when it is the \<open>k\<close>-th invocation after \<open>w\<close>
  (\<open>k = 0\<close>: the next one).\<close>

definition reply_at :: "world \<Rightarrow> nat \<Rightarrow> string list \<Rightarrow> proc_result" where
  "reply_at w k cmd = result (oc_reply w (length (history w) + k) cmd)"

definition failed :: "proc_result \<Rightarrow> bool" where
  "failed res = (case res of Exit0 out \<Rightarrow> False | ExitNonzero err \<Rightarrow> True)"

lemma reply_at_log [simp]: "reply_at (log l m w) k cmd = reply_at w k cmd"
  by (simp add: reply_at_def)

lemma reply_at_sleep [simp]: "reply_at (sleep s w) k cmd = reply_at w k cmd"
  by (simp add: reply_at_def)

lemma reply_at_later:
  "later w w' \<Longrightarrow> reply_at w' k cmd = reply_at w (length (since w w') + k) cmd"
  by (simp add: later_def reply_at_def add.commute add.left_commute)

lemma run_kubectl_conj:
  assumes "run_kubectl self args cap w = (w', r)"
  shows "later w w' \<and> since w w' = [(kubectl_cmd self @ args, reply_at w 0 (kubectl_cmd self @ args))]
    \<and> clock w < clock w'
    \<and> r = (case reply_at w 0 (kubectl_cmd self @ args) of
              Exit0 out \<Rightarrow> Inr (if cap then Some (strip out) else None)
            | ExitNonzero err \<Rightarrow> Inl CalledProcessError)
    \<and> logs_since w w' =
           (case reply_at w 0 (kubectl_cmd self @ args) of Exit0 out \<Rightarrow> []
            | ExitNonzero err \<Rightarrow>
                (ERROR, ''oc command failed: '' @ str_e err)
                # (if cap \<and> stderr err \<noteq> [] then [(ERROR, ''stderr: '' @ stderr err)] else []))"
  unfolding reply_at_def
  using run_kubectl_spec [OF assms] by simp

lemma get_executor_count_spec:
  assumes "get_executor_count self job_name w = (w', r)"
  shows "later w w' \<and> since w w' = [(pods_cmd self job_name, reply_at w 0 (pods_cmd self job_name))]
    \<and> r = Inr (case reply_at w 0 (pods_cmd self job_name) of
                 Exit0 out \<Rightarrow> if strip out \<noteq> [] then count_lines (strip out) else 0
               | ExitNonzero err \<Rightarrow> 0)"
  using assms unfolding get_executor_count_def pods_cmd_def
  by (auto split: prod.splits sum.splits exn.splits proc_result.splits dest!: run_kubectl_conj)

lemma apply_manifest_spec:
  assumes "apply_manifest self m w = (w', r)"
  shows "later w w' \<and> since w w' = [(apply_cmd self m, reply_at w 0 (apply_cmd self m))]
    \<and> r = (if failed (reply_at w 0 (apply_cmd self m)) then Inl CalledProcessError else Inr ())"
proof -
  obtain w1 r1 where k: "run_kubectl self [''apply'', ''-f'', m] True
      (log INFO (''Applying manifest: '' @ m) w) = (w1, r1)"
    by force
  have w': "w' = w1" and r: "r = (case r1 of Inl e \<Rightarrow> Inl e | Inr _ \<Rightarrow> Inr ())"
    using assms k by (auto simp: apply_manifest_def split: sum.splits)
  note s = run_kubectl_conj [OF k]
  have l: "later w (log INFO (''Applying manifest: '' @ m) w)"
    by (simp add: later_log)
  have "later w w1"
    using l s by (blast intro: later_trans)
  with s w' r show ?thesis
    by (auto simp: apply_cmd_def failed_def split: proc_result.splits)
qed

lemma delete_spark_job_spec:
  assumes "delete_spark_job self job_name w = (w', r)"
  shows "later w w' \<and> r = Inr ()
    \<and> since w w' = [(delete_cmd self job_name, reply_at w 0 (delete_cmd self job_name))]
    \<and> logs_since w w' =
        (case reply_at w 0 (delete_cmd self job_name) of
           Exit0 out \<Rightarrow> [(INFO, ''Deleted existing job '' @ [CHR 0x27] @ job_name @ [CHR 0x27])]
         | ExitNonzero err \<Rightarrow>
             (ERROR, ''oc command failed: '' @ str_e err)
             # (if stderr err \<noteq> [] then [(ERROR, ''stderr: '' @ stderr err)] else [])
             @ [(INFO, ''Job '' @ [CHR 0x27] @ job_name @ [CHR 0x27] @ '' not found (this is okay)'')])
    \<and> clock w < clock w'"
proof -
  obtain w1 r1 where k: "run_kubectl self
      [''delete'', ''sparkapplication'', job_name, ''-n'', namespace self] True w = (w1, r1)"
    by force
  note s = run_kubectl_conj [OF k, folded delete_cmd_def]
  show ?thesis
  proof (cases "reply_at w 0 (delete_cmd self job_name)")
    case (Exit0 out)
    with s have r1: "r1 = Inr (Some (strip out))" by simp
    let ?w2 = "log INFO (''Deleted existing job '' @ [CHR 0x27] @ job_name @ [CHR 0x27]) w1"
    have w': "w' = sleep 10 ?w2" and r: "r = Inr ()"
      using assms k r1 by (simp_all add: delete_spark_job_def)
    have l: "later w1 w'"
      unfolding w' by (intro later_sleep later_log) simp_all
    have "logs_since w1 w' = [(INFO, ''Deleted existing job '' @ [CHR 0x27] @ job_name @ [CHR 0x27])]"
      unfolding w' by (rule logs_since_append) simp
    with s l Exit0 r show ?thesis
      using later_trans [of w w1 w'] since_trans [of w w1 w'] logs_since_trans [of w w1 w']
      by (simp add: w')
  next
    case (ExitNonzero err)
    with s have r1: "r1 = Inl CalledProcessError" by simp
    have w': "w' = log INFO (''Job '' @ [CHR 0x27] @ job_name @ [CHR 0x27] @ '' not found (this is okay)'') w1"
      and r: "r = Inr ()"
      using assms k r1 by (simp_all add: delete_spark_job_def)
    have l: "later w1 w'"
      unfolding w' by (intro later_log) simp_all
    have "logs_since w1 w' = [(INFO, ''Job '' @ [CHR 0x27] @ job_name @ [CHR 0x27] @ '' not found (this is okay)'')]"
      unfolding w' by (rule logs_since_append) simp
    with s l ExitNonzero r show ?thesis
      using later_trans [of w w1 w'] since_trans [of w w1 w'] logs_since_trans [of w w1 w']
      by (simp add: w')
  qed
qed

subsection \<open>Traces\<close>

text \<open>\<open>trace w w' cs ls\<close>: \<open>w'\<close> is later than \<open>w\<close>, the invocations in between were \<open>cs\<close>
  and the lines logged in between were \<open>ls\<close>.\<close>

definition trace ::
  "world \<Rightarrow> world \<Rightarrow> (string list \<times> proc_result) list \<Rightarrow> (level \<times> string) list \<Rightarrow> bool" where
  "trace w w' cs ls \<longleftrightarrow> later w w' \<and> since w w' = cs \<and> logs_since w w' = ls"

lemma trace_refl: "trace w w [] []"
  by (simp add: trace_def logs_since_def)

lemma trace_trans:
  assumes "trace w w1 cs ls" "trace w1 w2 cs' ls'"
  shows "trace w w2 (cs @ cs') (ls @ ls')"
  using assms later_trans [of w w1 w2] since_trans [of w w1 w2] logs_since_trans [of w w1 w2]
  by (simp add: trace_def)

lemma trace_log:
  assumes "trace w w1 cs ls" "l \<noteq> DEBUG"
  shows "trace w (log l m w1) cs (ls @ [(l, m)])"
proof -
  have "later w1 (log l m w1)"
    by (simp add: later_log)
  moreover have "logs_since w1 (log l m w1) = [(l, m)]"
    by (rule logs_since_append) (simp add: assms(2))
  ultimately have "trace w1 (log l m w1) [] [(l, m)]"
    by (simp add: trace_def)
  from trace_trans [OF assms(1) this] show ?thesis
    by simp
qed

lemma trace_sleep:
  assumes "trace w w1 cs ls" "0 \<le> s"
  shows "trace w (sleep s w1) cs ls"
proof -
  have "later w1 (sleep s w1)"
    using assms(2) by (simp add: later_sleep)
  moreover have "logs_since w1 (sleep s w1) = []"
    by (rule logs_since_append) simp
  ultimately have "trace w1 (sleep s w1) [] []"
    by (simp add: trace_def)
  from trace_trans [OF assms(1) this] show ?thesis
    by simp
qed

text \<open>The error lines \<open>run_kubectl\<close> logs for a command that ended this way.\<close>

definition error_lines :: "string list \<Rightarrow> bool \<Rightarrow> proc_result \<Rightarrow> (level \<times> string) list" where
  "error_lines cmd cap res =
     (case res of
        Exit0 out \<Rightarrow> []
      | ExitNonzero err \<Rightarrow>
          (ERROR, ''oc command failed: '' @ str_e err)
          # (if cap \<and> stderr err \<noteq> [] then [(ERROR, ''stderr: '' @ stderr err)] else []))"

definition returned :: "bool \<Rightarrow> proc_result \<Rightarrow> exn + string option" where
  "returned cap res =
     (case res of
        Exit0 out \<Rightarrow> Inr (if cap then Some (strip out) else None)
      | ExitNonzero err \<Rightarrow> Inl CalledProcessError)"

lemma trace_run_kubectl:
  assumes "trace w w1 cs ls" "run_kubectl self args cap w1 = (w2, r)"
  defines "cmd \<equiv> kubectl_cmd self @ args"
  defines "res \<equiv> reply_at w (length cs) cmd"
  shows "trace w w2 (cs @ [(cmd, res)]) (ls @ error_lines cmd cap res) \<and> r = returned cap res
    \<and> clock w1 < clock w2"
proof -
  note s = run_kubectl_conj [OF assms(2)]
  have l: "later w w1" and c: "since w w1 = cs"
    using assms(1) by (simp_all add: trace_def)
  have res: "reply_at w1 0 cmd = res"
    unfolding res_def using reply_at_later [OF l, of 0 cmd] c by simp
  have "trace w1 w2 [(cmd, res)] (error_lines cmd cap res)"
    using s res by (simp add: trace_def cmd_def error_lines_def)
  from trace_trans [OF assms(1) this] s res show ?thesis
    by (simp add: returned_def cmd_def)
qed

lemmas trace_run_kubectl0 = trace_run_kubectl [OF trace_refl, simplified]

lemma trace_log_if:
  assumes "trace w w1 cs ls" "l \<noteq> DEBUG"
  shows "trace w (if b then log l m w1 else w1) cs (ls @ (if b then [(l, m)] else []))"
  using assms by (simp add: trace_log)

lemma show_job_logs_spec:
  assumes "show_job_logs self job_name n w = (w', r)"
  defines "d \<equiv> driver_logs_cmd self job_name n"
  defines "e \<equiv> executor_logs_cmd self job_name"
  shows "r = Inr () \<and>
    trace w w' [(d, reply_at w 0 d), (e, reply_at w 1 e)]
      ((INFO, ''Recent logs for job '' @ [CHR 0x27] @ job_name @ [CHR 0x27] @ '':'')
       # error_lines d False (reply_at w 0 d)
       @ (if failed (reply_at w 0 d) then [(WARNING, ''Could not retrieve driver logs'')] else [])
       @ (INFO, ''Recent executor logs:'')
       # error_lines e False (reply_at w 1 e)
       @ (if failed (reply_at w 1 e) then [(WARNING, ''Could not retrieve executor logs'')] else []))"
proof -
  define l1 where "l1 = (INFO, ''Recent logs for job '' @ [CHR 0x27] @ job_name @ [CHR 0x27] @ '':'')"
  let ?w1 = "log INFO (''Recent logs for job '' @ [CHR 0x27] @ job_name @ [CHR 0x27] @ '':'') w"
  obtain w2 r2 where k1: "run_kubectl self
      [''logs'', ''-l'', driver_selector job_name, ''-n'', namespace self, ''--tail'', str_nat n]
      False ?w1 = (w2, r2)"
    by force
  have t1: "trace w ?w1 [] ([] @ [l1])"
    unfolding l1_def by (rule trace_log [OF trace_refl]) simp
  note s1 = trace_run_kubectl [OF t1 k1, folded driver_logs_cmd_def d_def]
  have t2: "trace w w2 ([] @ [(d, reply_at w 0 d)]) (([] @ [l1]) @ error_lines d False (reply_at w 0 d))"
    and r2: "r2 = returned False (reply_at w 0 d)"
    using s1 by simp_all
  define w3 where "w3 = (if failed (reply_at w 0 d)
     then log WARNING ''Could not retrieve driver logs'' w2 else w2)"
  have t3: "trace w w3 ([] @ [(d, reply_at w 0 d)])
      ((([] @ [l1]) @ error_lines d False (reply_at w 0 d))
       @ (if failed (reply_at w 0 d) then [(WARNING, ''Could not retrieve driver logs'')] else []))"
    unfolding w3_def by (rule trace_log_if [OF t2]) simp
  let ?w4 = "log INFO ''Recent executor logs:'' w3"
  obtain w5 r5 where k2: "run_kubectl self
      [''logs'', ''-l'', executor_selector job_name, ''-n'', namespace self, ''--tail'', ''20'']
      False ?w4 = (w5, r5)"
    by force
  have t4: "trace w ?w4 ([] @ [(d, reply_at w 0 d)])
      (((([] @ [l1]) @ error_lines d False (reply_at w 0 d))
       @ (if failed (reply_at w 0 d) then [(WARNING, ''Could not retrieve driver logs'')] else []))
       @ [(INFO, ''Recent executor logs:'')])"
    by (rule trace_log [OF t3]) simp
  note s2 = trace_run_kubectl [OF t4 k2, folded executor_logs_cmd_def e_def]
  have t5: "trace w w5 (([] @ [(d, reply_at w 0 d)]) @ [(e, reply_at w 1 e)])
      ((((([] @ [l1]) @ error_lines d False (reply_at w 0 d))
       @ (if failed (reply_at w 0 d) then [(WARNING, ''Could not retrieve driver logs'')] else []))
       @ [(INFO, ''Recent executor logs:'')]) @ error_lines e False (reply_at w 1 e))"
    and r5: "r5 = returned False (reply_at w 1 e)"
    using s2 by simp_all
  define w6 where "w6 = (if failed (reply_at w 1 e)
     then log WARNING ''Could not retrieve executor logs'' w5 else w5)"
  have t6: "trace w w6 (([] @ [(d, reply_at w 0 d)]) @ [(e, reply_at w 1 e)])
      (((((([] @ [l1]) @ error_lines d False (reply_at w 0 d))
       @ (if failed (reply_at w 0 d) then [(WARNING, ''Could not retrieve driver logs'')] else []))
       @ [(INFO, ''Recent executor logs:'')]) @ error_lines e False (reply_at w 1 e))
       @ (if failed (reply_at w 1 e) then [(WARNING, ''Could not retrieve executor logs'')] else []))"
    unfolding w6_def by (rule trace_log_if [OF t5]) simp
  have "w' = w6 \<and> r = Inr ()"
    using assms(1) k1 k2 r2 r5 unfolding show_job_logs_def Let_def w3_def w6_def
    by (cases "reply_at w 0 d"; cases "reply_at w 1 e")
      (simp_all add: returned_def failed_def)
  with t6 show ?thesis
    by (simp add: l1_def)
qed

text \<open>\<open>ran w w' cs\<close>: the same without the log.\<close>

definition ran :: "world \<Rightarrow> world \<Rightarrow> (string list \<times> proc_result) list \<Rightarrow> bool" where
  "ran w w' cs \<longleftrightarrow> later w w' \<and> since w w' = cs"

lemma trace_ran: "trace w w' cs ls \<Longrightarrow> ran w w' cs"
  by (simp add: trace_def ran_def)

lemma ran_trace: "ran w w' cs \<Longrightarrow> trace w w' cs (logs_since w w')"
  by (simp add: trace_def ran_def)

lemma ran_refl: "ran w w []"
  by (simp add: ran_def)

lemma ran_trans: "ran w w1 cs \<Longrightarrow> ran w1 w2 cs' \<Longrightarrow> ran w w2 (cs @ cs')"
  using later_trans [of w w1 w2] since_trans [of w w1 w2] by (simp add: ran_def)

lemma ran_log: "ran w w1 cs \<Longrightarrow> ran w (log l m w1) cs"
  by (simp add: ran_def later_log)

lemma ran_sleep: "ran w w1 cs \<Longrightarrow> 0 \<le> s \<Longrightarrow> ran w (sleep s w1) cs"
  by (simp add: ran_def later_sleep)

lemma ran_run_kubectl:
  assumes "ran w w1 cs" "run_kubectl self args cap w1 = (w2, r)"
  shows "ran w w2 (cs @ [(kubectl_cmd self @ args, reply_at w (length cs) (kubectl_cmd self @ args))])
    \<and> r = returned cap (reply_at w (length cs) (kubectl_cmd self @ args))
    \<and> clock w1 < clock w2"
  using trace_run_kubectl [OF ran_trace [OF assms(1)] assms(2)]
  by (blast intro: trace_ran)

lemma ran_clock: "ran w w' cs \<Longrightarrow> clock w + int (length cs) \<le> clock w'"
  by (auto simp: ran_def later_def)

definition nodes_cmd :: "orchestrator \<Rightarrow> string list" where
  "nodes_cmd self = kubectl_cmd self @ [''get'', ''nodes'', ''-o'', ''wide'']"

definition top_cmd :: "orchestrator \<Rightarrow> string list" where
  "top_cmd self = kubectl_cmd self @ [''top'', ''nodes'']"

lemma check_cluster_resources_spec:
  assumes "check_cluster_resources self w = (w', r)"
  shows "r = Inr () \<and>
    ran w w' ((nodes_cmd self, reply_at w 0 (nodes_cmd self))
              # (if failed (reply_at w 0 (nodes_cmd self)) then []
                 else [(top_cmd self, reply_at w 1 (top_cmd self))]))"
proof -
  obtain w1 r1 where k1: "run_kubectl self [''get'', ''nodes'', ''-o'', ''wide''] True
      (log INFO ''Checking cluster resources...'' w) = (w1, r1)"
    by force
  note s1 = ran_run_kubectl [OF ran_log [OF ran_refl] k1, folded nodes_cmd_def]
  then have t1: "ran w w1 ([] @ [(nodes_cmd self, reply_at w 0 (nodes_cmd self))])"
    and r1: "r1 = returned True (reply_at w 0 (nodes_cmd self))"
    by simp_all
  show ?thesis
  proof (cases "reply_at w 0 (nodes_cmd self)")
    case (ExitNonzero err)
    then have "w' = log WARNING ''Could not retrieve cluster resource info'' w1 \<and> r = Inr ()"
      using assms k1 r1 by (simp add: check_cluster_resources_def returned_def)
    with ran_log [OF t1] ExitNonzero show ?thesis
      by (simp add: failed_def)
  next
    case (Exit0 out)
    let ?w2 = "log INFO ''Checking resource allocation...''
                     (log INFO (str_opt (Some (strip out))) (log INFO ''Available nodes:'' w1))"
    obtain w3 r3 where k2: "run_kubectl self [''top'', ''nodes''] False ?w2 = (w3, r3)"
      by force
    note s2 = ran_run_kubectl [OF ran_log [OF ran_log [OF ran_log [OF t1]]] k2, folded top_cmd_def]
    then have t3: "ran w w3 (([] @ [(nodes_cmd self, reply_at w 0 (nodes_cmd self))])
        @ [(top_cmd self, reply_at w 1 (top_cmd self))])"
      and r3: "r3 = returned False (reply_at w 1 (top_cmd self))"
      by simp_all
    have "(w' = w3 \<or> w' = log WARNING ''Could not retrieve cluster resource info'' w3) \<and> r = Inr ()"
      using assms k1 k2 r1 r3 Exit0
      by (cases "reply_at w 1 (top_cmd self)")
        (simp_all add: check_cluster_resources_def returned_def)
    with t3 ran_log [OF t3] Exit0 show ?thesis
      by (auto simp: failed_def)
  qed
qed

subsection \<open>Waiting for a job\<close>

definition failure_statuses :: "string list" where
  "failure_statuses = [''FAILED'', ''CANCELLED'', ''ERROR'']"

definition terminal_statuses :: "string list" where
  "terminal_statuses = ''COMPLETED'' # failure_statuses"

lemma wait_decide_spec:
  assumes "wait_decide self job_name elapsed ls lc st n w = (w', ls', lc', r)"
  defines "d \<equiv> driver_logs_cmd self job_name 50"
  defines "e \<equiv> executor_logs_cmd self job_name"
  shows "r = (if st = Some ''COMPLETED'' then Inr (Some True)
              else if st \<in> set (map Some failure_statuses) then Inr (Some False)
              else Inr None)
    \<and> ran w w' (if st \<noteq> Some ''COMPLETED'' \<and> st \<in> set (map Some failure_statuses)
                 then [(d, reply_at w 0 d), (e, reply_at w 1 e)] else [])"
proof -
  define w1 where "w1 = (if st \<noteq> ls \<or> n \<noteq> lc
                then log INFO (''['' @ fmt_1f elapsed 60000 @ ''m] Job '' @ quoted job_name
                       @ '' - Status: '' @ str_opt st
                       @ '', Executors: '' @ str_nat n) w
                else w)"
  have t1: "ran w w1 []"
    by (simp add: w1_def ran_refl ran_log)
  have f: "(st \<in> set [Some ''FAILED'', Some ''CANCELLED'', Some ''ERROR''])
      = (st \<in> set (map Some failure_statuses))"
    by (simp add: failure_statuses_def)
  consider (ok) "st = Some ''COMPLETED''"
    | (bad) "st \<noteq> Some ''COMPLETED''" "st \<in> set (map Some failure_statuses)"
    | (other) "st \<noteq> Some ''COMPLETED''" "st \<notin> set (map Some failure_statuses)"
    by blast
  then show ?thesis
  proof cases
    case ok
    with assms(1) have "w' = log INFO (''Job '' @ quoted job_name @ '' completed successfully in ''
                 @ fmt_1f elapsed 60000 @ '' minutes!'') w1" "r = Inr (Some True)"
      unfolding wait_decide_def Let_def w1_def by simp_all
    with ok ran_log [OF t1] show ?thesis
      by simp
  next
    case bad
    let ?w2 = "log ERROR (''Job '' @ quoted job_name @ '' failed with status: '' @ str_opt st) w1"
    obtain w3 r3 where h: "show_job_logs self job_name 50 ?w2 = (w3, r3)"
      by force
    from show_job_logs_spec [OF h]
    have r3: "r3 = Inr ()" and t3: "ran ?w2 w3 [(d, reply_at w 0 d), (e, reply_at w 1 e)]"
      by (simp_all add: d_def e_def w1_def trace_def ran_def)
    have "w' = w3" "r = Inr (Some False)"
      using assms(1) bad h r3 unfolding wait_decide_def Let_def w1_def f by simp_all
    with bad ran_trans [OF ran_log [OF t1] t3] show ?thesis
      by simp
  next
    case other
    with assms(1) have "w' = sleep 30 w1" "r = Inr None"
      unfolding wait_decide_def Let_def w1_def f by simp_all
    with other ran_sleep [OF t1] show ?thesis
      by simp
  qed
qed

text \<open>What one round of the loop does, by the result of the status query: the commands
  it runs and how it ends.\<close>

definition round_commands ::
  "orchestrator \<Rightarrow> string \<Rightarrow> world \<Rightarrow> (string list \<times> proc_result) list" where
  "round_commands self job_name w =
     (status_cmd self job_name, reply_at w 0 (status_cmd self job_name))
     # (case reply_at w 0 (status_cmd self job_name) of
          ExitNonzero err \<Rightarrow> []
        | Exit0 out \<Rightarrow>
            (pods_cmd self job_name, reply_at w 1 (pods_cmd self job_name))
            # (if strip out \<in> set failure_statuses
               then [(driver_logs_cmd self job_name 50,
                      reply_at w 2 (driver_logs_cmd self job_name 50)),
                     (executor_logs_cmd self job_name,
                      reply_at w 3 (executor_logs_cmd self job_name))]
               else []))"

definition round_result :: "proc_result \<Rightarrow> exn + bool option" where
  "round_result res =
     (case res of
        ExitNonzero err \<Rightarrow> Inl CalledProcessError
      | Exit0 out \<Rightarrow>
          if strip out = ''COMPLETED'' then Inr (Some True)
          else if strip out \<in> set failure_statuses then Inr (Some False)
          else Inr None)"

lemma wait_try_spec:
  assumes "wait_try self job_name elapsed ls lc w = (w', ls', lc', r)"
  shows "ran w w' (round_commands self job_name w)
    \<and> r = round_result (reply_at w 0 (status_cmd self job_name))"
proof -
  obtain w1 r1 where k: "run_kubectl self (status_args self job_name) True w = (w1, r1)"
    by force
  note s1 = ran_run_kubectl [OF ran_refl k, folded status_cmd_def]
  then have t1: "ran w w1 ([] @ [(status_cmd self job_name, reply_at w 0 (status_cmd self job_name))])"
    and r1: "r1 = returned True (reply_at w 0 (status_cmd self job_name))"
    by simp_all
  show ?thesis
  proof (cases "reply_at w 0 (status_cmd self job_name)")
    case (ExitNonzero err)
    with assms k r1 have "w' = w1" "r = Inl CalledProcessError"
      by (simp_all add: wait_try_def returned_def)
    with t1 ExitNonzero show ?thesis
      by (simp add: round_commands_def round_result_def)
  next
    case (Exit0 out)
    obtain w2 r2 where g: "get_executor_count self job_name w1 = (w2, r2)"
      by force
    from get_executor_count_spec [OF g] obtain n where r2: "r2 = Inr n"
      and t2: "ran w1 w2 [(pods_cmd self job_name, reply_at w1 0 (pods_cmd self job_name))]"
      by (auto simp: ran_def)
    have l1: "later w w1" and c1: "length (since w w1) = 1"
      using t1 by (simp_all add: ran_def)
    have t2': "ran w w2 (([] @ [(status_cmd self job_name, reply_at w 0 (status_cmd self job_name))])
        @ [(pods_cmd self job_name, reply_at w 1 (pods_cmd self job_name))])"
      using ran_trans [OF t1 t2] reply_at_later [OF l1, of 0] c1 by simp
    have l2: "later w w2" and c2: "length (since w w2) = 2"
      using t2' by (simp_all add: ran_def)
    have d: "wait_decide self job_name elapsed ls lc (Some (strip out)) n w2 = (w', ls', lc', r)"
      using assms k g r1 r2 Exit0 by (simp add: wait_try_def returned_def)
    note s3 = wait_decide_spec [OF d]
    have m: "(Some (strip out) \<in> set (map Some failure_statuses)) = (strip out \<in> set failure_statuses)"
      by auto
    have "ran w w' ((([] @ [(status_cmd self job_name, reply_at w 0 (status_cmd self job_name))])
        @ [(pods_cmd self job_name, reply_at w 1 (pods_cmd self job_name))])
        @ (if Some (strip out) \<noteq> Some ''COMPLETED''
               \<and> Some (strip out) \<in> set (map Some failure_statuses)
           then [(driver_logs_cmd self job_name 50, reply_at w2 0 (driver_logs_cmd self job_name 50)),
                 (executor_logs_cmd self job_name, reply_at w2 1 (executor_logs_cmd self job_name))]
           else []))"
      using s3 by (intro ran_trans [OF t2']) simp
    moreover have "strip out \<in> set failure_statuses \<Longrightarrow> strip out \<noteq> ''COMPLETED''"
      by (auto simp: failure_statuses_def)
    ultimately show ?thesis
      using s3 Exit0 reply_at_later [OF l2, of 0] reply_at_later [OF l2, of 1] c2
      unfolding m by (auto simp: round_commands_def round_result_def)
  qed
qed

text \<open>The statuses that successful status queries for the job returned, in a list of
  invocations; \<open>observed_statuses\<close> are those between two worlds.\<close>

definition statuses_in ::
  "orchestrator \<Rightarrow> string \<Rightarrow> (string list \<times> proc_result) list \<Rightarrow> string list" where
  "statuses_in self job_name cs =
     concat (map (\<lambda>(cmd, res).
                    case res of
                      Exit0 out \<Rightarrow> if cmd = status_cmd self job_name then [strip out] else []
                    | ExitNonzero err \<Rightarrow> [])
               cs)"

definition observed_statuses :: "orchestrator \<Rightarrow> string \<Rightarrow> world \<Rightarrow> world \<Rightarrow> string list" where
  "observed_statuses self job_name w w' = statuses_in self job_name (since w w')"

text \<open>The function has given up: the clock is past the timeout and the last line logged
  is the timeout error.\<close>

definition timeout_line :: "string \<Rightarrow> int \<Rightarrow> level \<times> string" where
  "timeout_line job_name timeout_minutes =
     (ERROR, ''Timeout waiting for job '' @ quoted job_name @ '' after ''
        @ str_int timeout_minutes @ '' minutes'')"

definition timed_out :: "string \<Rightarrow> int \<Rightarrow> int \<Rightarrow> world \<Rightarrow> bool" where
  "timed_out job_name timeout_minutes start_time w' \<longleftrightarrow>
     clock w' - start_time > timeout_minutes * 60 * 1000
     \<and> log_lines w' \<noteq> [] \<and> last (log_lines w') = timeout_line job_name timeout_minutes"

text \<open>
  How a wait ends, given the statuses \<open>obs\<close> it observed, its result \<open>r\<close> and whether it
  timed out: every observed status but the last is not terminal; if the last is
  terminal, the result is \<open>True\<close> for \<open>COMPLETED\<close> and \<open>False\<close> otherwise; if there is
  none or the last is not terminal, the result is \<open>False\<close> and the wait timed out.
\<close>

definition wait_ended :: "string list \<Rightarrow> exn + bool \<Rightarrow> bool \<Rightarrow> bool" where
  "wait_ended obs r late \<longleftrightarrow>
     list_all (\<lambda>s. s \<notin> set terminal_statuses) (butlast obs)
     \<and> (if obs \<noteq> [] \<and> last obs \<in> set terminal_statuses
        then r = Inr (last obs = ''COMPLETED'')
        else r = Inr False \<and> late)"

lemma statuses_in_append [simp]:
  "statuses_in self job_name (cs @ cs') = statuses_in self job_name cs @ statuses_in self job_name cs'"
  by (simp add: statuses_in_def)

lemma statuses_in_round:
  "statuses_in self job_name (round_commands self job_name w) =
     (case reply_at w 0 (status_cmd self job_name) of
        Exit0 out \<Rightarrow> [strip out] | ExitNonzero err \<Rightarrow> [])"
proof -
  have "pods_cmd self job_name \<noteq> status_cmd self job_name"
    "driver_logs_cmd self job_name 50 \<noteq> status_cmd self job_name"
    "executor_logs_cmd self job_name \<noteq> status_cmd self job_name"
    by (simp_all add: pods_cmd_def driver_logs_cmd_def executor_logs_cmd_def status_cmd_def
        status_args_def)
  then show ?thesis
    by (simp add: statuses_in_def round_commands_def split: proc_result.splits)
qed

lemma wait_ended_append:
  assumes "wait_ended obs r late" "list_all (\<lambda>s. s \<notin> set terminal_statuses) pre"
  shows "wait_ended (pre @ obs) r late"
proof (cases "obs = []")
  case True
  with assms show ?thesis
    by (cases pre rule: rev_cases) (auto simp: wait_ended_def)
next
  case False
  with assms show ?thesis
    by (auto simp: wait_ended_def butlast_append)
qed

lemma wait_loop_ended:
  assumes "wait_loop self job_name timeout_minutes start_time ls lc w = (w', r)"
  shows "later w w' \<and>
    wait_ended (observed_statuses self job_name w w') r
      (timed_out job_name timeout_minutes start_time w')"
  using assms
proof (induction self job_name timeout_minutes start_time ls lc w arbitrary: w' r
    rule: wait_loop.induct)
  case (1 self job_name timeout_minutes start_time ls lc w)
  note IH = "1.IH" and prems = "1.prems"
  show ?case
  proof (cases "clock w - start_time > timeout_minutes * 60 * 1000")
    case True
    then have w': "w' = log ERROR (''Timeout waiting for job '' @ quoted job_name @ '' after ''
                 @ str_int timeout_minutes @ '' minutes'') w" and r: "r = Inr False"
      using prems by (simp_all add: wait_loop.simps [of self job_name timeout_minutes start_time ls lc w])
    have "timed_out job_name timeout_minutes start_time w'"
      using True by (simp add: w' timed_out_def timeout_line_def)
    then show ?thesis
      by (simp add: w' r later_log observed_statuses_def statuses_in_def wait_ended_def)
  next
    case False
    obtain w1 ls1 lc1 r1 where
      t: "wait_try self job_name (clock w - start_time) ls lc w = (w1, ls1, lc1, r1)"
      by (metis prod_cases4)
    note s = wait_try_spec [OF t]
    have l1: "later w w1" and c1: "since w w1 = round_commands self job_name w"
      using s by (simp_all add: ran_def)
    have o1: "observed_statuses self job_name w w1 =
       (case reply_at w 0 (status_cmd self job_name) of
          Exit0 out \<Rightarrow> [strip out] | ExitNonzero err \<Rightarrow> [])"
      by (simp add: observed_statuses_def c1 statuses_in_round)
    show ?thesis
    proof (cases "reply_at w 0 (status_cmd self job_name)")
      case (ExitNonzero err)
      with s have r1: "r1 = Inl CalledProcessError"
        by (simp add: round_result_def)
      let ?w2 = "sleep 10 (log WARNING (''Could not get status for job '' @ quoted job_name
                        @ '', retrying...'') w1)"
      have rec: "wait_loop self job_name timeout_minutes start_time ls1 lc1 ?w2 = (w', r)"
        using prems False t r1
        by (simp add: wait_loop.simps [of self job_name timeout_minutes start_time ls lc w])
      have "later ?w2 w' \<and> wait_ended (observed_statuses self job_name ?w2 w') r
          (timed_out job_name timeout_minutes start_time w')"
        by (rule IH(1) [OF refl refl False t [symmetric] refl refl r1 refl rec])
      then have l2: "later w1 w'"
        and e2: "wait_ended (observed_statuses self job_name w1 w') r
          (timed_out job_name timeout_minutes start_time w')"
        using later_trans [of w1 ?w2 w'] later_sleep [of 10 w1] later_log [of w1 w1]
        by (simp_all add: observed_statuses_def)
      have "observed_statuses self job_name w w' = observed_statuses self job_name w1 w'"
        using since_trans [OF l1 l2] o1 ExitNonzero
        by (simp add: observed_statuses_def)
      with e2 later_trans [OF l1 l2] show ?thesis
        by simp
    next
      case (Exit0 out)
      show ?thesis
      proof (cases "strip out \<in> set terminal_statuses")
        case True
        then have "r1 = Inr (Some (strip out = ''COMPLETED''))"
          using s Exit0 by (auto simp: round_result_def terminal_statuses_def)
        then have "w' = w1" "r = Inr (strip out = ''COMPLETED'')"
          using prems False t
          by (simp_all add: wait_loop.simps [of self job_name timeout_minutes start_time ls lc w])
        with l1 o1 Exit0 True show ?thesis
          by (simp add: wait_ended_def)
      next
        case nt: False
        then have r1: "r1 = Inr None"
          using s Exit0 by (auto simp: round_result_def terminal_statuses_def)
        have rec: "wait_loop self job_name timeout_minutes start_time ls1 lc1 w1 = (w', r)"
          using prems False t r1
          by (simp add: wait_loop.simps [of self job_name timeout_minutes start_time ls lc w])
        have "later w1 w' \<and> wait_ended (observed_statuses self job_name w1 w') r
            (timed_out job_name timeout_minutes start_time w')"
          by (rule IH(2) [OF refl refl False t [symmetric] refl refl r1 refl rec])
        then have l2: "later w1 w'"
          and e2: "wait_ended (observed_statuses self job_name w1 w') r
            (timed_out job_name timeout_minutes start_time w')"
          by simp_all
        have "observed_statuses self job_name w w' = [strip out] @ observed_statuses self job_name w1 w'"
          using since_trans [OF l1 l2] o1 Exit0
          by (simp add: observed_statuses_def)
        with wait_ended_append [OF e2, of "[strip out]"] nt later_trans [OF l1 l2] show ?thesis
          by simp
      qed
    qed
  qed
qed

lemma wait_for_spark_job_ended:
  assumes "wait_for_spark_job self job_name timeout_minutes w = (w', r)"
  shows "later w w' \<and>
    wait_ended (observed_statuses self job_name w w') r
      (timed_out job_name timeout_minutes (clock w) w')"
proof -
  let ?w1 = "log INFO (''Waiting for Spark job '' @ quoted job_name @ '' to complete (timeout: ''
                  @ str_int timeout_minutes @ ''m)...'') w"
  have "wait_loop self job_name timeout_minutes (clock ?w1) (Some []) 0 ?w1 = (w', r)"
    using assms by (simp add: wait_for_spark_job_def Let_def)
  from wait_loop_ended [OF this] later_trans [of w ?w1 w'] later_log [of w w] show ?thesis
    by (simp add: observed_statuses_def)
qed

lemma wait_ended_result:
  assumes "wait_ended obs r late"
  shows "(r = Inr True) = (''COMPLETED'' \<in> set obs)"
    and "s \<in> set failure_statuses \<Longrightarrow> s \<in> set obs \<Longrightarrow> r = Inr False"
    and "obs = [] \<or> last obs \<notin> set terminal_statuses \<Longrightarrow> r = Inr False \<and> late"
    and "\<exists>b. r = Inr b"
    and "r = Inr False \<Longrightarrow> late \<or> (obs \<noteq> [] \<and> last obs \<in> set failure_statuses)"
proof -
  have t: "s \<in> set obs \<Longrightarrow> s \<in> set terminal_statuses \<Longrightarrow> obs \<noteq> [] \<and> last obs = s" for s
  proof (cases obs rule: rev_cases)
    case Nil
    then show "s \<in> set obs \<Longrightarrow> s \<in> set terminal_statuses \<Longrightarrow> obs \<noteq> [] \<and> last obs = s"
      by simp
  next
    case (snoc ys y)
    then show "s \<in> set obs \<Longrightarrow> s \<in> set terminal_statuses \<Longrightarrow> obs \<noteq> [] \<and> last obs = s"
      using assms by (auto simp: wait_ended_def list_all_iff)
  qed
  have c: "''COMPLETED'' \<in> set terminal_statuses"
    by (simp add: terminal_statuses_def)
  show "(r = Inr True) = (''COMPLETED'' \<in> set obs)"
  proof
    assume "r = Inr True"
    with assms have "obs \<noteq> []" "last obs = ''COMPLETED''"
      by (auto simp: wait_ended_def split: if_splits)
    then show "''COMPLETED'' \<in> set obs"
      using last_in_set by metis
  next
    assume "''COMPLETED'' \<in> set obs"
    from t [OF this c] assms c show "r = Inr True"
      by (simp add: wait_ended_def)
  qed
  show "r = Inr False" if "s \<in> set failure_statuses" "s \<in> set obs"
  proof -
    from that have "s \<in> set terminal_statuses" "s \<noteq> ''COMPLETED''"
      by (auto simp: terminal_statuses_def failure_statuses_def)
    with t [OF that(2)] assms show ?thesis
      by (auto simp: wait_ended_def)
  qed
  show "r = Inr False \<and> late" if "obs = [] \<or> last obs \<notin> set terminal_statuses"
    using that assms by (auto simp: wait_ended_def)
  show "\<exists>b. r = Inr b"
    using assms by (auto simp: wait_ended_def split: if_splits)
  show "late \<or> (obs \<noteq> [] \<and> last obs \<in> set failure_statuses)" if "r = Inr False"
    using that assms by (auto simp: wait_ended_def terminal_statuses_def split: if_splits)
qed

subsection \<open>Applied manifests\<close>

text \<open>\<open>is_apply self cmd\<close>: the command is \<open>oc apply -f m\<close> for some manifest \<open>m\<close>.
  \<open>applied self cs\<close> are the manifests applied in a list of invocations, in order, and
  \<open>applied_since\<close> those applied between two worlds.\<close>

definition is_apply :: "orchestrator \<Rightarrow> string list \<Rightarrow> bool" where
  "is_apply self cmd \<longleftrightarrow> cmd \<noteq> [] \<and> butlast cmd = kubectl_cmd self @ [''apply'', ''-f'']"

definition applied :: "orchestrator \<Rightarrow> (string list \<times> proc_result) list \<Rightarrow> string list" where
  "applied self cs = map (\<lambda>c. last (fst c)) (filter (\<lambda>c. is_apply self (fst c)) cs)"

definition applied_since :: "orchestrator \<Rightarrow> world \<Rightarrow> world \<Rightarrow> string list" where
  "applied_since self w w' = applied self (since w w')"

lemma is_apply_iff: "is_apply self cmd \<longleftrightarrow> (\<exists>m. cmd = apply_cmd self m)"
proof
  assume "is_apply self cmd"
  then have ne: "cmd \<noteq> []" and b: "butlast cmd = kubectl_cmd self @ [''apply'', ''-f'']"
    by (simp_all add: is_apply_def)
  from ne have "butlast cmd @ [last cmd] = cmd"
    by (rule append_butlast_last_id)
  with b have "cmd = (kubectl_cmd self @ [''apply'', ''-f'']) @ [last cmd]"
    by metis
  then have "cmd = apply_cmd self (last cmd)"
    by (simp add: apply_cmd_def)
  then show "\<exists>m. cmd = apply_cmd self m" ..
next
  assume "\<exists>m. cmd = apply_cmd self m"
  then show "is_apply self cmd"
    by (auto simp: is_apply_def apply_cmd_def butlast_append)
qed

lemma not_apply: "a \<noteq> ''apply'' \<Longrightarrow> \<not> is_apply self (kubectl_cmd self @ a # rest)"
  by (auto simp: is_apply_iff apply_cmd_def)

lemma applied_append [simp]: "applied self (cs @ cs') = applied self cs @ applied self cs'"
  by (simp add: applied_def)

lemma applied_Nil [simp]: "applied self [] = []"
  by (simp add: applied_def)

lemma applied_apply [simp]: "applied self ((apply_cmd self m, res) # cs) = m # applied self cs"
  using is_apply_iff [of self "apply_cmd self m"]
  by (auto simp: applied_def) (simp add: apply_cmd_def)

lemma applied_other [simp]:
  "a \<noteq> ''apply'' \<Longrightarrow> applied self ((kubectl_cmd self @ a # rest, res) # cs) = applied self cs"
  by (simp add: applied_def not_apply)

text \<open>\<open>quiet self w w'\<close>: \<open>w'\<close> is later than \<open>w\<close> and no manifest was applied in between.\<close>

definition quiet :: "orchestrator \<Rightarrow> world \<Rightarrow> world \<Rightarrow> bool" where
  "quiet self w w' \<longleftrightarrow> later w w' \<and> applied_since self w w' = []"

lemma quiet_refl [simp]: "quiet self w w"
  by (simp add: quiet_def applied_since_def)

lemma quiet_trans: "quiet self w w1 \<Longrightarrow> quiet self w1 w2 \<Longrightarrow> quiet self w w2"
  using later_trans [of w w1 w2] since_trans [of w w1 w2]
  by (simp add: quiet_def applied_since_def)

lemma quiet_log: "quiet self w w1 \<Longrightarrow> quiet self w (log l m w1)"
  by (simp add: quiet_def applied_since_def later_log)

lemma quiet_sleep: "quiet self w w1 \<Longrightarrow> 0 \<le> s \<Longrightarrow> quiet self w (sleep s w1)"
  by (simp add: quiet_def applied_since_def later_sleep)

lemma quiet_later: "quiet self w w' \<Longrightarrow> later w w'"
  by (simp add: quiet_def)

lemma ran_quiet: "ran w w' cs \<Longrightarrow> applied self cs = [] \<Longrightarrow> quiet self w w'"
  by (simp add: ran_def quiet_def applied_since_def)

lemma quiet_run_kubectl:
  assumes "run_kubectl self (a # rest) cap w1 = (w2, r)" "a \<noteq> ''apply''" "quiet self w w1"
  shows "quiet self w w2"
proof (rule quiet_trans [OF assms(3)])
  from ran_run_kubectl [OF ran_refl assms(1)] assms(2) show "quiet self w1 w2"
    by (auto intro!: ran_quiet)
qed

lemma applied_round [simp]: "applied self (round_commands self job_name w) = []"
  by (simp add: round_commands_def status_cmd_def status_args_def pods_cmd_def
      driver_logs_cmd_def executor_logs_cmd_def split: proc_result.splits)

lemma wait_loop_quiet:
  assumes "wait_loop self job_name timeout_minutes start_time ls lc w = (w', r)"
  shows "quiet self w w'"
  using assms
proof (induction self job_name timeout_minutes start_time ls lc w arbitrary: w' r
    rule: wait_loop.induct)
  case (1 self job_name timeout_minutes start_time ls lc w)
  note IH = "1.IH" and prems = "1.prems"
  show ?case
  proof (cases "clock w - start_time > timeout_minutes * 60 * 1000")
    case True
    then have "w' = log ERROR (''Timeout waiting for job '' @ quoted job_name @ '' after ''
                 @ str_int timeout_minutes @ '' minutes'') w"
      using prems by (simp add: wait_loop.simps [of self job_name timeout_minutes start_time ls lc w])
    then show ?thesis
      by (simp add: quiet_log)
  next
    case False
    obtain w1 ls1 lc1 r1 where
      t: "wait_try self job_name (clock w - start_time) ls lc w = (w1, ls1, lc1, r1)"
      by (metis prod_cases4)
    from wait_try_spec [OF t] have q1: "quiet self w w1"
      by (auto intro: ran_quiet)
    consider (ret) b where "r1 = Inr (Some b)" | (go) "r1 = Inr None"
      | (retry) "r1 = Inl CalledProcessError" | (exn) e where "r1 = Inl e" "e \<noteq> CalledProcessError"
    proof (cases r1)
      case (Inl e)
      then show ?thesis
        using retry exn by (cases "e = CalledProcessError") auto
    next
      case (Inr x)
      then show ?thesis
        using ret go by (cases x) auto
    qed
    then show ?thesis
    proof cases
      case ret
      then have "w' = w1"
        using prems False t
        by (simp add: wait_loop.simps [of self job_name timeout_minutes start_time ls lc w])
      with q1 show ?thesis by simp
    next
      case go
      have rec: "wait_loop self job_name timeout_minutes start_time ls1 lc1 w1 = (w', r)"
        using prems False t go
        by (simp add: wait_loop.simps [of self job_name timeout_minutes start_time ls lc w])
      have "quiet self w1 w'"
        by (rule IH(2) [OF refl refl False t [symmetric] refl refl go refl rec])
      with q1 show ?thesis
        by (rule quiet_trans)
    next
      case retry
      let ?w2 = "sleep 10 (log WARNING (''Could not get status for job '' @ quoted job_name
                        @ '', retrying...'') w1)"
      have rec: "wait_loop self job_name timeout_minutes start_time ls1 lc1 ?w2 = (w', r)"
        using prems False t retry
        by (simp add: wait_loop.simps [of self job_name timeout_minutes start_time ls lc w])
      have "quiet self ?w2 w'"
        by (rule IH(1) [OF refl refl False t [symmetric] refl refl retry refl rec])
      moreover have "quiet self w ?w2"
        by (intro quiet_sleep quiet_log q1) simp
      ultimately show ?thesis
        using quiet_trans by blast
    next
      case exn
      then have "w' = w1"
        using prems False t
        by (cases e)
          (simp_all add: wait_loop.simps [of self job_name timeout_minutes start_time ls lc w])
      with q1 show ?thesis by simp
    qed
  qed
qed

lemma wait_for_spark_job_quiet:
  assumes "wait_for_spark_job self job_name timeout_minutes w = (w', r)"
  shows "quiet self w w' \<and> (\<exists>b. r = Inr b)"
proof -
  let ?w1 = "log INFO (''Waiting for Spark job '' @ quoted job_name @ '' to complete (timeout: ''
                  @ str_int timeout_minutes @ ''m)...'') w"
  have "wait_loop self job_name timeout_minutes (clock ?w1) (Some []) 0 ?w1 = (w', r)"
    using assms by (simp add: wait_for_spark_job_def Let_def)
  from wait_loop_quiet [OF this] have "quiet self w w'"
    using quiet_trans [of self w ?w1 w'] quiet_log [of self w w] by simp
  with wait_ended_result(4) [OF wait_for_spark_job_ended [OF assms, THEN conjunct2]]
  show ?thesis
    by simp
qed

lemma executors_loop_quiet:
  assumes "executors_loop self start_time target w = (w', r)"
  shows "quiet self w w' \<and> r = Inr ()"
  using assms
proof (induction self start_time target w arbitrary: w' r rule: executors_loop.induct)
  case (1 self start_time target w)
  note IH = "1.IH" and prems = "1.prems"
  show ?case
  proof (cases "clock w - start_time < 600 * 1000")
    case False
    with prems show ?thesis
      by (simp add: executors_loop.simps [of self start_time target w])
  next
    case True
    obtain w1 r1 where g: "get_executor_count self ''mdp-bronze-ingest'' w = (w1, r1)"
      by force
    from get_executor_count_spec [OF g] obtain n where r1: "r1 = Inr n"
      and q1: "quiet self w w1"
      by (auto simp: quiet_def applied_since_def pods_cmd_def)
    define w2 where "w2 = (if n > 0
                           then log INFO (''Executors starting: '' @ str_nat n
                                  @ ''/'' @ str_nat target) w1
                           else w1)"
    have q2: "quiet self w w2"
      using q1 by (simp add: w2_def quiet_log)
    show ?thesis
    proof (cases "10 * n \<ge> 8 * target")
      case enough: True
      then have "w' = log INFO (''Sufficient executors running: '' @ str_nat n
                            @ ''/'' @ str_nat target) w2" "r = Inr ()"
        using prems True g r1
        by (simp_all add: executors_loop.simps [of self start_time target w] w2_def Let_def)
      with q2 show ?thesis
        by (simp add: quiet_log)
    next
      case few: False
      have rec: "executors_loop self start_time target (sleep 20 w2) = (w', r)"
        using prems True g r1 few
        by (simp add: executors_loop.simps [of self start_time target w] w2_def Let_def)
      have "quiet self (sleep 20 w2) w' \<and> r = Inr ()"
        by (rule IH [OF True g [symmetric] r1 w2_def few rec])
      moreover have "quiet self w (sleep 20 w2)"
        by (intro quiet_sleep q2) simp
      ultimately show ?thesis
        using quiet_trans by blast
    qed
  qed
qed

subsection \<open>The stages\<close>

lemma applied_since_trans:
  "later w w1 \<Longrightarrow> later w1 w2 \<Longrightarrow>
     applied_since self w w2 = applied_since self w w1 @ applied_since self w1 w2"
  using since_trans [of w w1 w2] by (simp add: applied_since_def)

lemma applied_since_log [simp]:
  "applied_since self w (log l m w') = applied_since self w w'"
  "applied_since self (log l m w) w' = applied_since self w w'"
  by (simp_all add: applied_since_def)

lemma later_strict: "later w w' \<Longrightarrow> since w w' \<noteq> [] \<Longrightarrow> clock w < clock w'"
  by (cases "since w w'") (auto simp: later_def)

text \<open>Deleting the old job and applying the manifest, as every stage begins.\<close>

lemma delete_then_apply:
  assumes "delete_spark_job self job_name w = (w1, r1)"
    and "apply_manifest self m w1 = (w2, r2)"
  shows "r1 = Inr () \<and> later w w2 \<and> applied_since self w w2 = [m] \<and> clock w < clock w2
    \<and> (r2 = Inl CalledProcessError \<or> r2 = Inr ())"
proof -
  note d = delete_spark_job_spec [OF assms(1)]
  note a = apply_manifest_spec [OF assms(2)]
  have l1: "later w w1" and l2: "later w1 w2"
    using d a by simp_all
  have "applied_since self w w1 = []"
    using d by (simp add: applied_since_def delete_cmd_def)
  moreover have "applied_since self w1 w2 = [m]"
    using a by (simp add: applied_since_def)
  ultimately have "applied_since self w w2 = [m]"
    using applied_since_trans [OF l1 l2] by simp
  moreover have "clock w < clock w2"
    using d later_clock [OF l2] by simp
  ultimately show ?thesis
    using d a later_trans [OF l1 l2] by simp
qed

text \<open>The shape the smoke, silver and gold stages share.\<close>

lemma stage_shape:
  assumes "(case delete_spark_job self job_name w of
        (w1, Inl e) \<Rightarrow> (w1, Inl e)
      | (w1, Inr _) \<Rightarrow>
          (case apply_manifest self m w1 of
             (w2, Inl e) \<Rightarrow> (w2, Inl e)
           | (w2, Inr _) \<Rightarrow>
               (case wait_for_spark_job self job_name timeout_minutes w2 of
                  (w3, Inl e) \<Rightarrow> (w3, Inl e)
                | (w3, Inr ok) \<Rightarrow>
                    if ok then (log INFO passed w3, Inr True)
                    else (log ERROR not_passed w3, Inr False)))) = (w', r)"
  shows "later w w' \<and> applied_since self w w' = [m] \<and> clock w < clock w'
    \<and> (r = Inl CalledProcessError \<or> (\<exists>b. r = Inr b))"
proof -
  obtain w1 r1 where d: "delete_spark_job self job_name w = (w1, r1)"
    by force
  obtain w2 r2 where a: "apply_manifest self m w1 = (w2, r2)"
    by force
  note s = delete_then_apply [OF d a]
  then have r1: "r1 = Inr ()" and l2: "later w w2" and ap: "applied_since self w w2 = [m]"
    and c2: "clock w < clock w2"
    by simp_all
  show ?thesis
  proof (cases r2)
    case (Inl e)
    with s have "r2 = Inl CalledProcessError"
      by simp
    with assms d a r1 have "w' = w2" "r = Inl CalledProcessError"
      by simp_all
    with s show ?thesis
      by simp
  next
    case (Inr u)
    obtain w3 r3 where g: "wait_for_spark_job self job_name timeout_minutes w2 = (w3, r3)"
      by force
    from wait_for_spark_job_quiet [OF g] obtain b where r3: "r3 = Inr b"
      and q: "quiet self w2 w3"
      by auto
    have w': "w' = (if b then log INFO passed w3 else log ERROR not_passed w3)" and r: "r = Inr b"
      using assms d a r1 Inr g r3 by (auto split: if_splits)
    have l3: "later w2 w'" and a3: "applied_since self w2 w' = []"
      using q by (simp_all add: w' quiet_def later_log)
    from applied_since_trans [OF l2 l3] ap a3 later_trans [OF l2 l3] later_clock [OF l3] c2 r
    show ?thesis
      by simp
  qed
qed

lemma run_smoke_test_spec:
  assumes "run_smoke_test self w = (w', r)"
  shows "later w w' \<and> applied_since self w w' = [''k8s/spark/49-smoke.yaml'']
    \<and> clock w < clock w' \<and> (r = Inl CalledProcessError \<or> (\<exists>b. r = Inr b))"
  using stage_shape [OF assms [unfolded run_smoke_test_def]]
    later_trans [of w "log INFO ''=== Running Smoke Test ==='' w" w'] later_log [of w w]
  by simp

lemma run_silver_build_spec:
  assumes "run_silver_build self w = (w', r)"
  shows "later w w' \<and> applied_since self w w' = [''k8s/spark/43-silver-build.yaml'']
    \<and> clock w < clock w' \<and> (r = Inl CalledProcessError \<or> (\<exists>b. r = Inr b))"
  using stage_shape [OF assms [unfolded run_silver_build_def]]
    later_trans [of w "log INFO ''=== Running Silver Build (Iceberg) ==='' w" w'] later_log [of w w]
  by simp

lemma run_gold_finalize_spec:
  assumes "run_gold_finalize self w = (w', r)"
  shows "later w w' \<and> applied_since self w w' = [''k8s/spark/44-gold-finalize.yaml'']
    \<and> clock w < clock w' \<and> (r = Inl CalledProcessError \<or> (\<exists>b. r = Inr b))"
  using stage_shape [OF assms [unfolded run_gold_finalize_def]]
    later_trans [of w "log INFO ''=== Running Gold Finalize ==='' w" w'] later_log [of w w]
  by simp

lemma applied_since_self [simp]: "applied_since self w w = []"
  by (simp add: applied_since_def)

lemma log_performance_later:
  "later w (log_performance ls w) \<and> history (log_performance ls w) = history w"
  unfolding log_performance_def
proof (induction ls arbitrary: w)
  case Nil
  show ?case by simp
next
  case (Cons a ls)
  let ?v = "if contains ''Throughput:'' a \<or> contains ''Est. Size:'' a \<or> contains ''Rows:'' a
            then log INFO (''Performance: '' @ strip a) w else w"
  have "later w ?v" "history ?v = history w"
    by (simp_all add: later_log)
  with Cons [of ?v] show ?case
    using later_trans [of w ?v] by simp
qed

lemma quiet_log_performance:
  assumes "quiet self w w1"
  shows "quiet self w (log_performance ls w1)"
proof (rule quiet_trans [OF assms])
  from log_performance_later [of w1 ls]
  show "quiet self w1 (log_performance ls w1)"
    by (simp add: quiet_def applied_since_def since_def)
qed

lemma run_bronze_ingest_spec:
  assumes "run_bronze_ingest self w = (w', r)"
  shows "later w w' \<and> applied_since self w w' = [''k8s/spark/42-bronze-ingest.yaml'']
    \<and> clock w < clock w' \<and> (r = Inl CalledProcessError \<or> (\<exists>b. r = Inr b))"
proof -
  let ?w0 = "log INFO ''=== Running Bronze Ingest (1TB Target - No Compression) ==='' w"
  let ?m = "''k8s/spark/42-bronze-ingest.yaml''"
  obtain w1 r1 where d: "delete_spark_job self ''mdp-bronze-ingest'' ?w0 = (w1, r1)"
    by force
  obtain w2 r2 where a: "apply_manifest self ?m w1 = (w2, r2)"
    by force
  note s = delete_then_apply [OF d a]
  then have r1: "r1 = Inr ()" and l2: "later ?w0 w2" and ap: "applied_since self ?w0 w2 = [?m]"
    and c2: "clock ?w0 < clock w2"
    by simp_all
  have fin: ?thesis if "later w2 w'" "applied_since self w2 w' = []"
      "r = Inl CalledProcessError \<or> (\<exists>b. r = Inr b)"
  proof -
    from applied_since_trans [OF l2 that(1)] ap that(2)
    have "applied_since self ?w0 w' = [?m]"
      by simp
    moreover have "later w w'"
      using later_trans [OF l2 that(1)] later_trans [of w ?w0 w'] later_log [of w w] by simp
    moreover have "clock w < clock w'"
      using c2 later_clock [OF that(1)] by simp
    ultimately show ?thesis
      using that(3) by simp
  qed
  show ?thesis
  proof (cases r2)
    case (Inl e)
    with s have "r2 = Inl CalledProcessError"
      by simp
    with assms d a r1 have "w' = w2" "r = Inl CalledProcessError"
      by (simp_all add: run_bronze_ingest_def)
    then show ?thesis
      by (intro fin) simp_all
  next
    case (Inr u)
    obtain w3 r3 where x: "executors_loop self (clock w2) 48
        (log INFO ''Waiting for executors to start...'' w2) = (w3, r3)"
      by force
    from executors_loop_quiet [OF x] have r3: "r3 = Inr ()" and q3: "quiet self w2 w3"
      using quiet_trans [of self w2 "log INFO ''Waiting for executors to start...'' w2" w3]
        quiet_log [of self w2 w2] by simp_all
    obtain w4 r4 where g: "wait_for_spark_job self ''mdp-bronze-ingest'' 180 w3 = (w4, r4)"
      by force
    from wait_for_spark_job_quiet [OF g] obtain b where r4: "r4 = Inr b"
      and q4: "quiet self w2 w4"
      using quiet_trans [OF q3] by auto
    show ?thesis
    proof (cases b)
      case False
      then have "w' = log ERROR ''Bronze ingest failed!'' w4" "r = Inr False"
        using assms d a r1 Inr x r3 g r4 by (simp_all add: run_bronze_ingest_def Let_def)
      with q4 show ?thesis
        by (intro fin) (auto simp: quiet_def later_log)
    next
      case True
      obtain w5 r5 where k: "run_kubectl self
          [''logs'', ''-l'', ''spark-app-name=mdp-bronze-ingest,spark-role=driver'',
           ''-n'', namespace self, ''--tail'', ''20''] True
          (log INFO ''Bronze ingest completed!'' w4) = (w5, r5)"
        by force
      have q5: "quiet self w2 w5"
        by (rule quiet_run_kubectl [OF k]) (simp_all add: quiet_log q4)
      from ran_run_kubectl [OF ran_refl k]
      have "r5 = Inl CalledProcessError \<or> (\<exists>t. r5 = Inr (Some t))"
        by (auto simp: returned_def split: proc_result.splits)
      then have "(w' = log WARNING ''Could not retrieve performance metrics from logs'' w5
          \<or> (\<exists>ls. w' = log_performance ls w5)) \<and> r = Inr True"
        using assms d a r1 Inr x r3 g r4 True k
        by (auto simp: run_bronze_ingest_def Let_def)
      with q5 quiet_log_performance [OF q5] show ?thesis
        by (intro fin) (auto simp: quiet_def later_log)
    qed
  qed
qed

lemma check_table_spec:
  assumes "check_table self pod info query warning w = (w', r)"
  shows "quiet self w w' \<and> r = Inr ()"
proof -
  obtain w1 r1 where k: "run_kubectl self
      ([''exec'', pod, ''-n'', namespace self, ''--''] @ query) False (log INFO info w) = (w1, r1)"
    by force
  have q: "quiet self w w1"
    using quiet_run_kubectl [of self "''exec''" "[pod, ''-n'', namespace self, ''--''] @ query"
        False "log INFO info w" w1 r1 w] k
    by (simp add: quiet_log)
  from ran_run_kubectl [OF ran_refl k]
  have "r1 = Inl CalledProcessError \<or> r1 = Inr None"
    by (auto simp: returned_def split: proc_result.splits)
  then have "(w' = w1 \<or> w' = log WARNING warning w1) \<and> r = Inr ()"
    using assms k by (auto simp: check_table_def)
  with q show ?thesis
    by (auto simp: quiet_log)
qed

lemma validate_try_spec:
  assumes "validate_try self w = (w', r)"
  shows "quiet self w w' \<and> (r = Inl CalledProcessError \<or> (\<exists>b. r = Inr b))"
proof -
  obtain w1 r1 where k1: "run_kubectl self
      [''get'', ''pods'', ''-l'',
       ''app.kubernetes.io/component=coordinator,app.kubernetes.io/instance=mdp-trino'',
       ''-n'', namespace self, ''-o'', ''jsonpath={.items[0].metadata.name}''] True w = (w1, r1)"
    by force
  have q1: "quiet self w w1"
    by (rule quiet_run_kubectl [OF k1]) simp_all
  from ran_run_kubectl [OF ran_refl k1]
  have o1: "r1 = Inl CalledProcessError \<or> (\<exists>t. r1 = Inr (Some t))"
    by (auto simp: returned_def split: proc_result.splits)
  show ?thesis
  proof (cases r1)
    case (Inl e)
    with o1 assms k1 have "w' = w1" "r = Inl CalledProcessError"
      by (auto simp: validate_try_def)
    with q1 show ?thesis by simp
  next
    case (Inr t)
    show ?thesis
    proof (cases "t = None \<or> t = Some []")
      case True
      with Inr assms k1 have "w' = log ERROR ''Could not find Trino coordinator pod'' w1"
        "r = Inr False"
        by (auto simp: validate_try_def)
      with q1 show ?thesis
        by (auto simp: quiet_log)
    next
      case False
      let ?pod = "str_opt t"
      obtain w2 r2 where k2: "run_kubectl self
          [''exec'', ?pod, ''-n'', namespace self, ''--'',
           ''trino'', ''--catalog'', ''iceberg'', ''--schema'', ''information_schema'',
           ''--execute'', ''SELECT 1 as test''] False
          (log INFO ''Testing Trino connectivity...''
             (log INFO (''Using Trino pod: '' @ ?pod) w1)) = (w2, r2)"
        by force
      have q2: "quiet self w w2"
        by (rule quiet_run_kubectl [OF k2]) (simp_all add: quiet_log q1)
      from ran_run_kubectl [OF ran_refl k2]
      have o2: "r2 = Inl CalledProcessError \<or> r2 = Inr None"
        by (auto simp: returned_def split: proc_result.splits)
      show ?thesis
      proof (cases r2)
        case (Inl e)
        with o2 Inr False assms k1 k2 have "w' = w2" "r = Inl CalledProcessError"
          by (auto simp: validate_try_def Let_def)
        with q2 show ?thesis by simp
      next
        case r2: (Inr u)
        obtain w3 r3 where c3: "check_table self ?pod ''Checking Bronze data size...''
            [''trino'', ''--catalog'', ''iceberg'', ''--execute'',
             ''SELECT 'Bronze validation - basic connectivity test' as status'']
            ''Bronze data not accessible via Trino (this is normal)'' w2 = (w3, r3)"
          by force
        obtain w4 r4 where c4: "check_table self ?pod ''Checking Silver table...''
            [''trino'', ''--catalog'', ''iceberg'', ''--schema'', ''silver'',
             ''--execute'',
             ''SELECT COUNT(*) as silver_row_count FROM iot_daily_city_sensors LIMIT 1'']
            ''Silver table not accessible (run Silver job first)'' w3 = (w4, r4)"
          by force
        obtain w5 r5 where c5: "check_table self ?pod ''Checking Gold table...''
            [''trino'', ''--catalog'', ''iceberg'', ''--schema'', ''gold'',
             ''--execute'',
             ''SELECT COUNT(*) as gold_row_count FROM iot_executive_kpis LIMIT 1'']
            ''Gold table not accessible (run Gold job first)'' w4 = (w5, r5)"
          by force
        note s3 = check_table_spec [OF c3] and s4 = check_table_spec [OF c4]
          and s5 = check_table_spec [OF c5]
        have q5: "quiet self w w5"
          using q2 s3 s4 s5 quiet_trans by blast
        have "w' = log INFO ''Pipeline validation completed!'' w5" "r = Inr True"
          using Inr False assms k1 k2 r2 c3 c4 c5 s3 s4 s5
          by (auto simp: validate_try_def Let_def)
        with q5 show ?thesis
          by (auto simp: quiet_log)
      qed
    qed
  qed
qed

lemma validate_pipeline_spec:
  assumes "validate_pipeline self w = (w', r)"
  shows "quiet self w w' \<and> (\<exists>b. r = Inr b)"
proof -
  obtain w1 r1 where v: "validate_try self (log INFO ''=== Validating Pipeline Results ==='' w)
      = (w1, r1)"
    by force
  from validate_try_spec [OF v] have q: "quiet self w w1"
    and o: "r1 = Inl CalledProcessError \<or> (\<exists>b. r1 = Inr b)"
    using quiet_trans [of self w "log INFO ''=== Validating Pipeline Results ==='' w" w1]
      quiet_log [of self w w] by simp_all
  from o assms v have "(w' = w1 \<or> w' = log ERROR ''Pipeline validation failed: '' w1)
      \<and> (\<exists>b. r = Inr b)"
    by (auto simp: validate_pipeline_def)
  with q show ?thesis
    by (auto simp: quiet_log)
qed

lemma check_cluster_resources_quiet:
  assumes "check_cluster_resources self w = (w', r)"
  shows "quiet self w w' \<and> r = Inr ()"
  using check_cluster_resources_spec [OF assms]
  by (auto simp: nodes_cmd_def top_cmd_def intro!: ran_quiet)

text \<open>\<open>run_full_pipeline\<close> by the results of its steps, each taken in the world the
  step before it left.\<close>

lemma run_full_pipeline_steps:
  assumes c0: "check_cluster_resources self
        (log INFO ''Target: 1TB Bronze (no compression) -> Silver Iceberg -> Gold Analytics''
           (log INFO ''Starting MD-Pipeline (1TB Medallion Benchmark)'' w)) = (w0, r0)"
    and c1: "run_smoke_test self (log INFO ''\<newline>--- STEP 1: Smoke Test ---'' w0) = (w1, r1)"
    and c2: "run_bronze_ingest self
        (log INFO ''\<newline>--- STEP 2: Bronze Ingest (1TB Target) ---'' w1) = (w2, r2)"
    and c3: "run_silver_build self (log INFO ''\<newline>--- STEP 3: Silver Build ---'' w2) = (w3, r3)"
    and c4: "run_gold_finalize self (log INFO ''\<newline>--- STEP 4: Gold Finalize ---'' w3) = (w4, r4)"
    and c5: "validate_pipeline self
        (log INFO ''\<newline>--- STEP 5: Pipeline Validation ---'' w4) = (w5, r5)"
  shows "run_full_pipeline self w =
    (if r1 \<noteq> Inr True
     then (if r1 = Inr False then log ERROR ''Smoke test failed - aborting pipeline'' w1 else w1, r1)
     else if r2 \<noteq> Inr True
     then (if r2 = Inr False then log ERROR ''Bronze ingest failed - aborting pipeline'' w2 else w2,
           r2)
     else if r3 \<noteq> Inr True
     then (if r3 = Inr False then log ERROR ''Silver build failed - aborting pipeline'' w3 else w3,
           r3)
     else if r4 \<noteq> Inr True
     then (if r4 = Inr False then log ERROR ''Gold finalize failed - aborting pipeline'' w4 else w4,
           r4)
     else summary (clock w2 - clock w1) (clock w3 - clock w2) (clock w4 - clock w3)
            (clock w5 - clock w0)
            (if r5 = Inr False
             then log WARNING ''Pipeline validation had issues, but core processing completed'' w5
             else w5))"
proof -
  have r0: "r0 = Inr ()"
    using check_cluster_resources_quiet [OF c0] by simp
  obtain b where r5: "r5 = Inr b"
    using validate_pipeline_spec [OF c5] by auto
  note defs = run_full_pipeline_def Let_def c0 r0
  show ?thesis
  proof (cases r1)
    case (Inl e)
    then show ?thesis
      by (simp add: defs c1)
  next
    case s1: (Inr b1)
    show ?thesis
    proof (cases b1)
      case False
      with s1 show ?thesis
        by (simp add: defs c1)
    next
      case t1: True
      show ?thesis
      proof (cases r2)
        case (Inl e)
        with s1 t1 show ?thesis
          by (simp add: defs c1 c2)
      next
        case s2: (Inr b2)
        show ?thesis
        proof (cases b2)
          case False
          with s1 t1 s2 show ?thesis
            by (simp add: defs c1 c2)
        next
          case t2: True
          show ?thesis
          proof (cases r3)
            case (Inl e)
            with s1 t1 s2 t2 show ?thesis
              by (simp add: defs c1 c2 c3)
          next
            case s3: (Inr b3)
            show ?thesis
            proof (cases b3)
              case False
              with s1 t1 s2 t2 s3 show ?thesis
                by (simp add: defs c1 c2 c3)
            next
              case t3: True
              show ?thesis
              proof (cases r4)
                case (Inl e)
                with s1 t1 s2 t2 s3 t3 show ?thesis
                  by (simp add: defs c1 c2 c3 c4)
              next
                case s4: (Inr b4)
                show ?thesis
                proof (cases b4)
                  case False
                  with s1 t1 s2 t2 s3 t3 s4 show ?thesis
                    by (simp add: defs c1 c2 c3 c4)
                next
                  case t4: True
                  with s1 t1 s2 t2 s3 t3 s4 r5 show ?thesis
                    by (cases b) (simp_all add: defs c1 c2 c3 c4 c5)
                qed
              qed
            qed
          qed
        qed
      qed
    qed
  qed
qed

lemma later_from_log: "later (log l m w) w' \<Longrightarrow> later w w'"
  using later_trans [of w "log l m w" w'] later_log [of w w] by simp

text \<open>The \<open>apply\<close> commands among the commands run are the manifests applied.\<close>

lemma apply_commands_applied:
  "filter (\<lambda>c. \<exists>m. c = kubectl_cmd self @ [''apply'', ''-f'', m]) (map fst cs)
     = map (\<lambda>m. kubectl_cmd self @ [''apply'', ''-f'', m]) (applied self cs)"
proof (induction cs)
  case Nil
  show ?case by simp
next
  case (Cons a cs)
  show ?case
  proof (cases "is_apply self (fst a)")
    case True
    then obtain m where m: "fst a = kubectl_cmd self @ [''apply'', ''-f'', m]"
      by (auto simp: is_apply_iff apply_cmd_def)
    then have "last (fst a) = m"
      by simp
    with True m Cons show ?thesis
      by (auto simp: applied_def)
  next
    case False
    then have "\<not> (\<exists>m. fst a = kubectl_cmd self @ [''apply'', ''-f'', m])"
      by (simp add: is_apply_iff apply_cmd_def)
    with False Cons show ?thesis
      by (simp add: applied_def)
  qed
qed

text \<open>The worlds of a full run, one after the other.\<close>

lemma run_full_pipeline_chain:
  assumes c0: "check_cluster_resources self
        (log INFO ''Target: 1TB Bronze (no compression) -> Silver Iceberg -> Gold Analytics''
           (log INFO ''Starting MD-Pipeline (1TB Medallion Benchmark)'' w)) = (w0, r0)"
    and c1: "run_smoke_test self (log INFO ''\<newline>--- STEP 1: Smoke Test ---'' w0) = (w1, r1)"
    and c2: "run_bronze_ingest self
        (log INFO ''\<newline>--- STEP 2: Bronze Ingest (1TB Target) ---'' w1) = (w2, r2)"
    and c3: "run_silver_build self (log INFO ''\<newline>--- STEP 3: Silver Build ---'' w2) = (w3, r3)"
    and c4: "run_gold_finalize self (log INFO ''\<newline>--- STEP 4: Gold Finalize ---'' w3) = (w4, r4)"
    and c5: "validate_pipeline self
        (log INFO ''\<newline>--- STEP 5: Pipeline Validation ---'' w4) = (w5, r5)"
  shows "later w w0 \<and> applied_since self w w0 = []"
    and "later w0 w1 \<and> applied_since self w0 w1 = [''k8s/spark/49-smoke.yaml'']
         \<and> clock w0 < clock w1"
    and "later w1 w2 \<and> applied_since self w1 w2 = [''k8s/spark/42-bronze-ingest.yaml'']
         \<and> clock w1 < clock w2"
    and "later w2 w3 \<and> applied_since self w2 w3 = [''k8s/spark/43-silver-build.yaml'']
         \<and> clock w2 < clock w3"
    and "later w3 w4 \<and> applied_since self w3 w4 = [''k8s/spark/44-gold-finalize.yaml'']
         \<and> clock w3 < clock w4"
    and "later w4 w5 \<and> applied_since self w4 w5 = []"
proof -
  from check_cluster_resources_quiet [OF c0]
  show "later w w0 \<and> applied_since self w w0 = []"
    by (auto simp: quiet_def dest!: later_from_log)
  from run_smoke_test_spec [OF c1]
  show "later w0 w1 \<and> applied_since self w0 w1 = [''k8s/spark/49-smoke.yaml'']
         \<and> clock w0 < clock w1"
    by (auto dest!: later_from_log)
  from run_bronze_ingest_spec [OF c2]
  show "later w1 w2 \<and> applied_since self w1 w2 = [''k8s/spark/42-bronze-ingest.yaml'']
         \<and> clock w1 < clock w2"
    by (auto dest!: later_from_log)
  from run_silver_build_spec [OF c3]
  show "later w2 w3 \<and> applied_since self w2 w3 = [''k8s/spark/43-silver-build.yaml'']
         \<and> clock w2 < clock w3"
    by (auto dest!: later_from_log)
  from run_gold_finalize_spec [OF c4]
  show "later w3 w4 \<and> applied_since self w3 w4 = [''k8s/spark/44-gold-finalize.yaml'']
         \<and> clock w3 < clock w4"
    by (auto dest!: later_from_log)
  from validate_pipeline_spec [OF c5]
  show "later w4 w5 \<and> applied_since self w4 w5 = []"
    by (auto simp: quiet_def dest!: later_from_log)
qed

lemma summary_spec:
  assumes "summary bt st gt tt w = (w', r)" "bt \<noteq> 0" "tt \<noteq> 0"
  shows "r = Inr True \<and> later w w' \<and> since w w' = []
    \<and> logs_since w w' =
        [(INFO, ''\<newline>=== PIPELINE COMPLETED SUCCESSFULLY! ===''),
         (INFO, ''Performance Summary:''),
         (INFO, ''  Bronze (1TB):   '' @ fmt_1f bt 60000 @ '' minutes (''
                        @ fmt_1f (1024 * 60 * 1000) bt @ '' GB/min)''),
         (INFO, ''  Silver:         '' @ fmt_1f st 60000 @ '' minutes''),
         (INFO, ''  Gold:           '' @ fmt_1f gt 60000 @ '' minutes''),
         (INFO, ''  Total Runtime:  '' @ fmt_1f tt 60000 @ '' minutes''),
         (INFO, ''  Overall Throughput: '' @ fmt_1f (1024 * 60 * 1000) tt @ '' GB/min'')]"
proof -
  have "later w w'"
    using assms by (auto simp: summary_def Let_def intro!: later_log)
  moreover have "r = Inr True" "since w w' = []"
    using assms by (auto simp: summary_def Let_def)
  moreover have "log_lines w' = log_lines w @
        [(INFO, ''\<newline>=== PIPELINE COMPLETED SUCCESSFULLY! ===''),
         (INFO, ''Performance Summary:''),
         (INFO, ''  Bronze (1TB):   '' @ fmt_1f bt 60000 @ '' minutes (''
                        @ fmt_1f (1024 * 60 * 1000) bt @ '' GB/min)''),
         (INFO, ''  Silver:         '' @ fmt_1f st 60000 @ '' minutes''),
         (INFO, ''  Gold:           '' @ fmt_1f gt 60000 @ '' minutes''),
         (INFO, ''  Total Runtime:  '' @ fmt_1f tt 60000 @ '' minutes''),
         (INFO, ''  Overall Throughput: '' @ fmt_1f (1024 * 60 * 1000) tt @ '' GB/min'')]"
    using assms by (auto simp: summary_def Let_def)
  ultimately show ?thesis
    using logs_since_append [of w' w] by simp
qed

subsection \<open>Lines of a text\<close>

lemma split_nl_nonempty [simp]: "split_nl s \<noteq> []"
  by (induction s) (auto split: list.splits)

lemma split_nl_join:
  "concat (map (\<lambda>l. l @ [CHR 0x0A]) (butlast (split_nl s))) @ last (split_nl s) = s"
proof (induction s)
  case Nil
  show ?case by simp
next
  case (Cons c cs)
  obtain l ls where s: "split_nl cs = l # ls"
    by (cases "split_nl cs") simp_all
  show ?case
    using Cons s by (cases ls) auto
qed

lemma split_nl_no_newline: "l \<in> set (split_nl s) \<Longrightarrow> CHR 0x0A \<notin> set l"
proof (induction s arbitrary: l)
  case Nil
  then show ?case by simp
next
  case (Cons c cs)
  obtain k ks where s: "split_nl cs = k # ks"
    by (cases "split_nl cs") simp_all
  from Cons.prems Cons.IH [of k] Cons.IH [of l] s show ?case
    by (auto split: if_splits)
qed

text \<open>A line counts when it holds a character that is not white space.\<close>

lemma all_space_dropWhile:
  "(\<forall>c\<in>set (dropWhile is_space l). is_space c) \<longleftrightarrow> dropWhile is_space l = []"
proof
  assume a: "\<forall>c\<in>set (dropWhile is_space l). is_space c"
  show "dropWhile is_space l = []"
  proof (rule ccontr)
    assume n: "dropWhile is_space l \<noteq> []"
    then have "\<not> is_space (hd (dropWhile is_space l))"
      by (rule hd_dropWhile)
    moreover have "hd (dropWhile is_space l) \<in> set (dropWhile is_space l)"
      using n by (rule hd_in_set)
    ultimately show False
      using a by blast
  qed
next
  assume "dropWhile is_space l = []"
  then show "\<forall>c\<in>set (dropWhile is_space l). is_space c"
    by (simp del: dropWhile_eq_Nil_conv)
qed

lemma strip_empty_iff: "strip l = [] \<longleftrightarrow> (\<forall>c\<in>set l. is_space c)"
proof -
  have "strip l = [] \<longleftrightarrow> dropWhile is_space (rev (dropWhile is_space l)) = []"
    by (simp add: strip_def)
  also have "\<dots> \<longleftrightarrow> (\<forall>c\<in>set (dropWhile is_space l). is_space c)"
    by simp
  also have "\<dots> \<longleftrightarrow> dropWhile is_space l = []"
    by (rule all_space_dropWhile)
  also have "\<dots> \<longleftrightarrow> (\<forall>c\<in>set l. is_space c)"
    by (rule dropWhile_eq_Nil_conv)
  finally show ?thesis .
qed

definition marks :: "string \<Rightarrow> bool list" where
  "marks s = map (\<lambda>l. \<exists>c\<in>set l. \<not> is_space c) (split_nl s)"

lemma count_lines_marks: "count_lines s = length (filter (\<lambda>b. b) (marks s))"
proof -
  have "(\<lambda>l. strip l \<noteq> []) = (\<lambda>l. \<exists>c\<in>set l. \<not> is_space c)"
    by (auto simp: strip_empty_iff)
  then show ?thesis
    by (simp add: count_lines_def marks_def filter_map comp_def)
qed

lemma is_space_newline [simp]: "is_space (CHR 0x0A)"
  by (simp add: is_space_def)

lemma marks_Cons_space:
  assumes "is_space c"
  shows "marks (c # cs) = (if c = CHR 0x0A then False # marks cs else marks cs)"
proof -
  obtain l ls where s: "split_nl cs = l # ls"
    by (cases "split_nl cs") simp_all
  with assms show ?thesis
    by (auto simp: marks_def)
qed

lemma count_Cons_space:
  "is_space c \<Longrightarrow> length (filter (\<lambda>b. b) (marks (c # cs))) = length (filter (\<lambda>b. b) (marks cs))"
  by (simp add: marks_Cons_space)

lemma count_dropWhile:
  "length (filter (\<lambda>b. b) (marks (dropWhile is_space s))) = length (filter (\<lambda>b. b) (marks s))"
  by (induction s) (auto simp: count_Cons_space simp del: split_nl.simps)

lemma marks_snoc_space:
  assumes "is_space c"
  shows "marks (xs @ [c]) = marks xs @ (if c = CHR 0x0A then [False] else [])"
proof (induction xs)
  case Nil
  with assms show ?case
    by (auto simp: marks_def)
next
  case (Cons a as)
  obtain l ls where s: "split_nl as = l # ls"
    by (cases "split_nl as") simp_all
  obtain l' ls' where s': "split_nl (as @ [c]) = l' # ls'"
    by (cases "split_nl (as @ [c])") simp_all
  from Cons s s' have "(\<exists>c\<in>set l'. \<not> is_space c) = (\<exists>c\<in>set l. \<not> is_space c)"
    and "map (\<lambda>l. \<exists>c\<in>set l. \<not> is_space c) ls'
       = map (\<lambda>l. \<exists>c\<in>set l. \<not> is_space c) ls @ (if c = CHR 0x0A then [False] else [])"
    by (simp_all add: marks_def)
  with s s' Cons show ?case
    by (auto simp: marks_def)
qed

lemma count_snoc_space:
  "is_space c \<Longrightarrow> length (filter (\<lambda>b. b) (marks (xs @ [c]))) = length (filter (\<lambda>b. b) (marks xs))"
  by (simp add: marks_snoc_space)

lemma count_drop_trailing:
  "length (filter (\<lambda>b. b) (marks (rev (dropWhile is_space (rev s))))) = length (filter (\<lambda>b. b) (marks s))"
proof (induction s rule: rev_induct)
  case Nil
  show ?case by simp
next
  case (snoc c s)
  then show ?case
    by (auto simp: count_snoc_space)
qed

lemma count_lines_strip: "count_lines (strip s) = count_lines s"
  unfolding count_lines_marks strip_def
  by (simp only: count_drop_trailing count_dropWhile)

lemma count_lines_eq:
  "count_lines (strip s) =
     length (filter (\<lambda>l. \<exists>c\<in>set l. of_char c \<notin> set [9, 10, 11, 12, 13, 28, 29, 30, 31, 32 :: nat])
       (split_nl s))"
proof -
  have "count_lines s = length (filter (\<lambda>l. \<exists>c\<in>set l. \<not> is_space c) (split_nl s))"
    by (simp add: count_lines_marks marks_def filter_map comp_def)
  then show ?thesis
    by (simp only: count_lines_strip is_space_def)
qed

section \<open>The claims\<close>

subsection \<open>Example worlds\<close>

text \<open>A process that has just started, at time 0, against the cluster \<open>f\<close>.\<close>

definition fresh :: "(nat \<Rightarrow> string list \<Rightarrow> reply) \<Rightarrow> world" where
  "fresh f = \<lparr>oc_reply = f, history = [], clock = 0, log_lines = []\<rparr>"

text \<open>A cluster on which every command fails, and one on which every command succeeds
  and prints \<open>COMPLETED\<close>.\<close>

text \<open>\<open>str(e)\<close> of the \<open>CalledProcessError\<close> for a command whose words hold no quote,
  backslash or control character, and a positive exit status.\<close>

fun join_comma :: "string list \<Rightarrow> string" where
  "join_comma [] = []"
| "join_comma [x] = x"
| "join_comma (x # y # ys) = x @ '', '' @ join_comma (y # ys)"

definition str_error :: "string list \<Rightarrow> nat \<Rightarrow> string" where
  "str_error cmd status =
     ''Command '' @ quoted (''['' @ join_comma (map quoted cmd) @ '']'')
       @ '' returned non-zero exit status '' @ str_nat status @ ''.''"

definition not_found :: "string list \<Rightarrow> failure" where
  "not_found cmd = \<lparr>stderr = ''NotFound'', str_e = str_error cmd 1\<rparr>"

definition failing :: world where
  "failing = fresh (\<lambda>n cmd. \<lparr>result = ExitNonzero (not_found cmd), took = 0\<rparr>)"

definition completing :: world where
  "completing = fresh (\<lambda>n cmd. \<lparr>result = Exit0 ''COMPLETED'', took = 0\<rparr>)"

text \<open>Clusters on which every command succeeds and prints \<open>RUNNING\<close>, or \<open>FAILED\<close>.\<close>

definition running :: world where
  "running = fresh (\<lambda>n cmd. \<lparr>result = Exit0 ''RUNNING'', took = 0\<rparr>)"

definition broken :: world where
  "broken = fresh (\<lambda>n cmd. \<lparr>result = Exit0 ''FAILED'', took = 0\<rparr>)"


text \<open>A cluster that rejects the silver manifest; every other command succeeds and
  prints \<open>COMPLETED\<close>.\<close>

definition no_silver :: world where
  "no_silver = fresh (\<lambda>n cmd.
     \<lparr>result = (if ''k8s/spark/43-silver-build.yaml'' \<in> set cmd
                 then ExitNonzero (not_found cmd) else Exit0 ''COMPLETED''),
      took = 0\<rparr>)"

text \<open>A cluster whose every command prints a pod listing of three rows, with an empty
  line between them and a newline at the end.\<close>

definition three_pods :: string where
  "three_pods =
     ''exec-1   1/1   Running   0   5m\<newline>exec-2   0/1   Pending   0   5m\<newline>\<newline>exec-3   1/1   Running   0   4m\<newline>''"

definition listing :: world where
  "listing = fresh (\<lambda>n cmd. \<lparr>result = Exit0 three_pods, took = 0\<rparr>)"

definition pipeline :: orchestrator where
  "pipeline = init ''md-pipeline'' None"

lemma reply_at_failing [simp]: "reply_at failing k cmd = ExitNonzero (not_found cmd)"
  by (simp add: reply_at_def failing_def fresh_def)

lemma reply_at_completing [simp]: "reply_at completing k cmd = Exit0 ''COMPLETED''"
  by (simp add: reply_at_def completing_def fresh_def)

lemma reply_at_running [simp]: "reply_at running k cmd = Exit0 ''RUNNING''"
  by (simp add: reply_at_def running_def fresh_def)

lemma reply_at_broken [simp]: "reply_at broken k cmd = Exit0 ''FAILED''"
  by (simp add: reply_at_def broken_def fresh_def)

subsection \<open>C1\<close>

text \<open>
  C1. \<open>wait_for_spark_job\<close> always returns, for every job and every timeout, so for
  every stage. If none of the statuses it observed is terminal (\<open>COMPLETED\<close>, \<open>FAILED\<close>,
  \<open>CANCELLED\<close>, \<open>ERROR\<close>), it returns \<open>False\<close>, never \<open>True\<close>, and it does so as a
  timeout: the elapsed time is more than \<open>timeout_minutes * 60\<close> seconds and the last line
  logged is the timeout error.
\<close>

theorem wait_for_spark_job_timeout:
  assumes "list_all (\<lambda>s. s \<notin> set terminal_statuses)
     (observed_statuses self job_name w (fst (wait_for_spark_job self job_name timeout_minutes w)))"
  shows "snd (wait_for_spark_job self job_name timeout_minutes w) = Inr False
    \<and> timed_out job_name timeout_minutes (clock w)
        (fst (wait_for_spark_job self job_name timeout_minutes w))"
proof -
  obtain w' r where g: "wait_for_spark_job self job_name timeout_minutes w = (w', r)"
    by force
  let ?obs = "observed_statuses self job_name w w'"
  have "?obs = [] \<or> last ?obs \<notin> set terminal_statuses"
    using assms g by (cases "?obs = []") (auto simp: list_all_iff)
  with wait_ended_result(3) [OF wait_for_spark_job_ended [OF g, THEN conjunct2]] g
  show ?thesis
    by simp
qed

lemma running_observed:
  "observed_statuses pipeline ''mdp-smoke'' running
     (fst (wait_for_spark_job pipeline ''mdp-smoke'' 0 running)) = [''RUNNING'']"
  by code_simp

theorem wait_for_spark_job_timeout_witness:
  "list_all (\<lambda>s. s \<notin> set terminal_statuses)
     (observed_statuses pipeline ''mdp-smoke'' running
        (fst (wait_for_spark_job pipeline ''mdp-smoke'' 0 running)))
   \<and> snd (wait_for_spark_job pipeline ''mdp-smoke'' 0 running) = Inr False
   \<and> timed_out ''mdp-smoke'' 0 0 (fst (wait_for_spark_job pipeline ''mdp-smoke'' 0 running))"
  using wait_for_spark_job_timeout [of pipeline "''mdp-smoke''" running 0]
  by (simp add: running_observed terminal_statuses_def failure_statuses_def)
    (simp add: running_def fresh_def)

subsection \<open>C3\<close>

text \<open>
  C3, as amended. When the delete command fails, \<open>delete_spark_job\<close> returns normally:
  no exception reaches its caller. It does emit error-level output: \<open>run_kubectl\<close>
  reports every failed command with an error line \<open>oc command failed: \<close> followed by the
  text of the exception and, when the command wrote to standard error, a second error
  line \<open>stderr: \<close> with that text. The info line that the job was not found follows, and
  nothing else is logged.
\<close>

theorem delete_spark_job_absent:
  assumes "reply_at w 0 (delete_cmd self job_name) = ExitNonzero err"
  shows "\<exists>w'. delete_spark_job self job_name w = (w', Inr ())
    \<and> logs_since w w' =
        (ERROR, ''oc command failed: '' @ str_e err)
        # (if stderr err \<noteq> [] then [(ERROR, ''stderr: '' @ stderr err)] else [])
        @ [(INFO, ''Job '' @ [CHR 0x27] @ job_name @ [CHR 0x27] @ '' not found (this is okay)'')]"
proof -
  obtain w' r where g: "delete_spark_job self job_name w = (w', r)"
    by force
  from delete_spark_job_spec [OF g] assms g show ?thesis
    by simp
qed

lemma str_error_delete:
  "str_error (delete_cmd pipeline ''mdp-smoke'') 1 =
     ''Command '['oc', 'delete', 'sparkapplication', 'mdp-smoke', '-n', 'md-pipeline']' returned non-zero exit status 1.''"
  by code_simp

lemma str_error_delete_Suc:
  "str_error (delete_cmd pipeline ''mdp-smoke'') (Suc 0) =
     ''Command '['oc', 'delete', 'sparkapplication', 'mdp-smoke', '-n', 'md-pipeline']' returned non-zero exit status 1.''"
  using str_error_delete by simp

theorem delete_spark_job_absent_witness:
  "reply_at failing 0 (delete_cmd pipeline ''mdp-smoke'')
     = ExitNonzero (not_found (delete_cmd pipeline ''mdp-smoke''))
   \<and> (\<exists>w'. delete_spark_job pipeline ''mdp-smoke'' failing = (w', Inr ())
    \<and> logs_since failing w' =
        [(ERROR, ''oc command failed: Command '['oc', 'delete', 'sparkapplication', 'mdp-smoke', '-n', 'md-pipeline']' returned non-zero exit status 1.''),
         (ERROR, ''stderr: NotFound''),
         (INFO, ''Job 'mdp-smoke' not found (this is okay)'')])"
  using delete_spark_job_absent [of failing pipeline "''mdp-smoke''"
      "not_found (delete_cmd pipeline ''mdp-smoke'')"]
  by (simp add: not_found_def str_error_delete_Suc)

text \<open>
  C3 as stated fails: on a cluster where the job does not exist, the delete command
  fails and \<open>delete_spark_job\<close> logs at error level.
\<close>

theorem delete_spark_job_error_output:
  "failed (reply_at failing 0 (delete_cmd pipeline ''mdp-smoke''))
   \<and> snd (delete_spark_job pipeline ''mdp-smoke'' failing) = Inr ()
   \<and> (ERROR, ''oc command failed: Command '['oc', 'delete', 'sparkapplication', 'mdp-smoke', '-n', 'md-pipeline']' returned non-zero exit status 1.'')
       \<in> set (logs_since failing (fst (delete_spark_job pipeline ''mdp-smoke'' failing)))
   \<and> ERROR \<in> fst ` set (logs_since failing (fst (delete_spark_job pipeline ''mdp-smoke'' failing)))"
proof -
  obtain w' r where g: "delete_spark_job pipeline ''mdp-smoke'' failing = (w', r)"
    by force
  from delete_spark_job_spec [OF g] g show ?thesis
    by (simp add: failed_def not_found_def str_error_delete_Suc)
qed

subsection \<open>C5\<close>







subsection \<open>C6\<close>




subsection \<open>C7\<close>

text \<open>
  C7. Fetching diagnostic logs is best effort: for every job name and every world
  \<open>show_job_logs\<close> returns normally. It logs the warning about the driver logs exactly
  when the driver-log fetch fails, and the warning about the executor logs exactly when
  the executor-log fetch fails. In the loop of \<open>wait_for_spark_job\<close> a round that sees a
  failure status ends with \<open>return False\<close> whatever the log fetches do.
\<close>

theorem show_job_logs_best_effort:
  "(\<exists>w'. show_job_logs self job_name n w = (w', Inr ())
      \<and> ((WARNING, ''Could not retrieve driver logs'') \<in> set (logs_since w w'))
          = failed (reply_at w 0 (driver_logs_cmd self job_name n))
      \<and> ((WARNING, ''Could not retrieve executor logs'') \<in> set (logs_since w w'))
          = failed (reply_at w 1 (executor_logs_cmd self job_name)))
   \<and> snd (snd (snd (wait_decide self job_name elapsed ls lc (Some ''FAILED'') k w)))
        = Inr (Some False)
   \<and> snd (snd (snd (wait_decide self job_name elapsed ls lc (Some ''CANCELLED'') k w)))
        = Inr (Some False)
   \<and> snd (snd (snd (wait_decide self job_name elapsed ls lc (Some ''ERROR'') k w)))
        = Inr (Some False)"
proof -
  obtain w' r where g: "show_job_logs self job_name n w = (w', r)"
    by force
  note s = show_job_logs_spec [OF g]
  have el: "(WARNING, m) \<notin> set (error_lines c b res)" for m c b res
    by (simp add: error_lines_def split: proc_result.splits)
  have 1: "\<exists>w'. show_job_logs self job_name n w = (w', Inr ())
      \<and> ((WARNING, ''Could not retrieve driver logs'') \<in> set (logs_since w w'))
          = failed (reply_at w 0 (driver_logs_cmd self job_name n))
      \<and> ((WARNING, ''Could not retrieve executor logs'') \<in> set (logs_since w w'))
          = failed (reply_at w 1 (executor_logs_cmd self job_name))"
    using g s by (auto simp: trace_def el)
  have 2: "snd (snd (snd (wait_decide self job_name elapsed ls lc (Some st) k w)))
        = Inr (Some False)"
    if "st \<in> {''FAILED'', ''CANCELLED'', ''ERROR''}" for st
  proof -
    obtain w2 r2 where h: "show_job_logs self job_name 50
        (log ERROR (''Job '' @ quoted job_name @ '' failed with status: '' @ str_opt (Some st))
          (if Some st \<noteq> ls \<or> k \<noteq> lc
           then log INFO (''['' @ fmt_1f elapsed 60000 @ ''m] Job '' @ quoted job_name
                       @ '' - Status: '' @ str_opt (Some st)
                       @ '', Executors: '' @ str_nat k) w
           else w)) = (w2, r2)"
      by force
    from show_job_logs_spec [OF h] have "r2 = Inr ()"
      by simp
    with h that show ?thesis
      unfolding wait_decide_def Let_def by auto
  qed
  from 1 2 show ?thesis
    by simp
qed

theorem show_job_logs_best_effort_witness:
  "\<exists>w'. show_job_logs pipeline ''mdp-smoke'' 50 failing = (w', Inr ())
     \<and> (WARNING, ''Could not retrieve driver logs'') \<in> set (logs_since failing w')
     \<and> (WARNING, ''Could not retrieve executor logs'') \<in> set (logs_since failing w')"
  using show_job_logs_best_effort [of pipeline "''mdp-smoke''" 50 failing]
  by (simp add: failed_def)

subsection \<open>C8\<close>

text \<open>
  C8. When a stage is run (no \<open>--check-resources\<close>), \<open>main\<close> runs the stage function that
  \<open>--stage\<close> selects, on the orchestrator made from the arguments, and nothing else: the
  commands of \<open>main\<close> are those of that function. The exit code is 0 exactly when that
  function returns \<open>True\<close>, and 1 otherwise: when it returns \<open>False\<close> and when an
  exception leaves it. The handlers of \<open>main\<close> give exit code 1 for \<open>KeyboardInterrupt\<close>
  as for every other exception.
\<close>

lemma finish_exit:
  "snd (finish ns (v, x)) = (if x = Inr True then 0 else 1)
   \<and> since w (fst (finish ns (v, x))) = since w v"
  by (cases x) (auto simp: finish_def split: exn.splits)

theorem main_exit_code:
  fixes a :: args and w :: world
  assumes "\<not> check_resources a"
  defines "orch \<equiv> init (arg_namespace a) (arg_kubeconfig a)"
  shows "(arg_stage a = Smoke \<longrightarrow>
           snd (main a w) = (if snd (run_smoke_test orch w) = Inr True then 0 else 1)
           \<and> since w (fst (main a w)) = since w (fst (run_smoke_test orch w)))
    \<and> (arg_stage a = Bronze \<longrightarrow>
           snd (main a w) = (if snd (run_bronze_ingest orch w) = Inr True then 0 else 1)
           \<and> since w (fst (main a w)) = since w (fst (run_bronze_ingest orch w)))
    \<and> (arg_stage a = Silver \<longrightarrow>
           snd (main a w) = (if snd (run_silver_build orch w) = Inr True then 0 else 1)
           \<and> since w (fst (main a w)) = since w (fst (run_silver_build orch w)))
    \<and> (arg_stage a = Gold \<longrightarrow>
           snd (main a w) = (if snd (run_gold_finalize orch w) = Inr True then 0 else 1)
           \<and> since w (fst (main a w)) = since w (fst (run_gold_finalize orch w)))
    \<and> (arg_stage a = Validate \<longrightarrow>
           snd (main a w) = (if snd (validate_pipeline orch w) = Inr True then 0 else 1)
           \<and> since w (fst (main a w)) = since w (fst (validate_pipeline orch w)))
    \<and> (arg_stage a = Full \<longrightarrow>
           snd (main a w) = (if snd (run_full_pipeline orch w) = Inr True then 0 else 1)
           \<and> since w (fst (main a w)) = since w (fst (run_full_pipeline orch w)))
    \<and> snd (finish ns (w1, Inl KeyboardInterrupt)) = 1
    \<and> snd (finish ns (w1, Inl e)) = 1"
proof -
  have m: "main a w = finish (arg_namespace a) (run_stage (arg_stage a) orch w)"
    using assms(1) by (simp add: main_def orch_def)
  have s: "snd (finish n p) = (if snd p = Inr True then 0 else 1)
      \<and> since w (fst (finish n p)) = since w (fst p)" for n p
    using finish_exit [of n "fst p" "snd p" w] by simp
  show ?thesis
    unfolding m using s finish_exit [of ns w1]
    by (cases "arg_stage a") (simp_all add: run_stage_def)
qed

definition smoke_args :: args where
  "smoke_args = \<lparr>arg_kubeconfig = None, arg_namespace = ''md-pipeline'', arg_stage = Smoke,
      check_resources = False\<rparr>"

definition silver_args :: args where
  "silver_args = \<lparr>arg_kubeconfig = None, arg_namespace = ''md-pipeline'', arg_stage = Silver,
      check_resources = False\<rparr>"

lemma smoke_no_silver: "snd (run_smoke_test pipeline no_silver) = Inr True"
  by code_simp

lemma silver_no_silver: "snd (run_silver_build pipeline no_silver) = Inl CalledProcessError"
  by code_simp

lemma smoke_commands:
  "commands_since no_silver (fst (run_smoke_test pipeline no_silver)) =
     [[''oc'', ''delete'', ''sparkapplication'', ''mdp-smoke'', ''-n'', ''md-pipeline''],
      [''oc'', ''apply'', ''-f'', ''k8s/spark/49-smoke.yaml''],
      [''oc'', ''get'', ''sparkapplication'', ''mdp-smoke'', ''-n'', ''md-pipeline'',
       ''-o'', ''jsonpath={.status.applicationState.state}''],
      [''oc'', ''get'', ''pods'', ''-l'', ''spark-app-name=mdp-smoke,spark-role=executor'',
       ''-n'', ''md-pipeline'', ''--no-headers'']]"
  by code_simp

theorem main_exit_code_witness:
  "\<not> check_resources smoke_args \<and> arg_stage smoke_args = Smoke
   \<and> snd (main smoke_args no_silver) = 0
   \<and> commands_since no_silver (fst (main smoke_args no_silver)) =
     [[''oc'', ''delete'', ''sparkapplication'', ''mdp-smoke'', ''-n'', ''md-pipeline''],
      [''oc'', ''apply'', ''-f'', ''k8s/spark/49-smoke.yaml''],
      [''oc'', ''get'', ''sparkapplication'', ''mdp-smoke'', ''-n'', ''md-pipeline'',
       ''-o'', ''jsonpath={.status.applicationState.state}''],
      [''oc'', ''get'', ''pods'', ''-l'', ''spark-app-name=mdp-smoke,spark-role=executor'',
       ''-n'', ''md-pipeline'', ''--no-headers'']]
   \<and> \<not> check_resources silver_args \<and> arg_stage silver_args = Silver
   \<and> snd (main silver_args no_silver) = 1"
  using main_exit_code [of smoke_args no_silver] main_exit_code [of silver_args no_silver]
    smoke_no_silver silver_no_silver smoke_commands
  by (simp add: smoke_args_def silver_args_def pipeline_def commands_since_def)

subsection \<open>C9\<close>

text \<open>
  C9. \<open>get_executor_count\<close> is total and its result is a count: for every job name and
  every world it returns normally (it never raises), having run the pod query and
  nothing else. When the query succeeds it returns the number of non-empty lines of the
  pod listing, a line being empty when it holds nothing but white space (the characters
  9 to 13, 28 to 31 and 32, which \<open>line.strip()\<close> removes); that number is 0 for an empty
  listing. When the query fails it returns 0. The lines of a text \<open>s\<close> are \<open>split_nl s\<close>:
  they hold no newline and, joined by newlines, give \<open>s\<close> back.
\<close>

theorem get_executor_count_total:
  fixes self job_name w
  defines "cmd \<equiv> kubectl_cmd self @
     [''get'', ''pods'', ''-l'', ''spark-app-name='' @ job_name @ '',spark-role=executor'',
      ''-n'', namespace self, ''--no-headers'']"
  defines "res \<equiv> result (oc_reply w (length (history w)) cmd)"
  shows "(\<exists>w' n. get_executor_count self job_name w = (w', Inr n)
      \<and> since w w' = [(cmd, res)]
      \<and> (\<forall>out. res = Exit0 out \<longrightarrow>
            n = length (filter
                  (\<lambda>line. \<exists>c\<in>set line.
                     of_char c \<notin> set [9, 10, 11, 12, 13, 28, 29, 30, 31, 32 :: nat])
                  (split_nl out)))
      \<and> (res = Exit0 [] \<longrightarrow> n = 0)
      \<and> (\<forall>err. res = ExitNonzero err \<longrightarrow> n = 0))
    \<and> split_nl s \<noteq> []
    \<and> concat (map (\<lambda>l. l @ [CHR 0x0A]) (butlast (split_nl s))) @ last (split_nl s) = s
    \<and> (\<forall>l\<in>set (split_nl s). CHR 0x0A \<notin> set l)"
proof -
  obtain w' r where g: "get_executor_count self job_name w = (w', r)"
    by force
  have c: "pods_cmd self job_name = cmd"
    by (simp add: pods_cmd_def cmd_def executor_selector_def)
  have a: "reply_at w 0 cmd = res"
    by (simp add: reply_at_def res_def)
  have e: "count_lines [] = 0"
    by (simp add: count_lines_def strip_def)
  from get_executor_count_spec [OF g]
  have s: "since w w' = [(cmd, res)]"
    and r: "r = Inr (case res of Exit0 out \<Rightarrow> count_lines (strip out) | ExitNonzero err \<Rightarrow> 0)"
    unfolding c a using e by (auto split: proc_result.splits)
  have "\<exists>n. r = Inr n
      \<and> (\<forall>out. res = Exit0 out \<longrightarrow>
            n = length (filter
                  (\<lambda>line. \<exists>c\<in>set line.
                     of_char c \<notin> set [9, 10, 11, 12, 13, 28, 29, 30, 31, 32 :: nat])
                  (split_nl out)))
      \<and> (res = Exit0 [] \<longrightarrow> n = 0)
      \<and> (\<forall>err. res = ExitNonzero err \<longrightarrow> n = 0)"
    unfolding r using count_lines_eq e by (auto simp: strip_def)
  with g s split_nl_join [of s] split_nl_no_newline [of _ s] show ?thesis
    by auto
qed

lemma three_pods_count:
  "length (filter
      (\<lambda>line. \<exists>c\<in>set line. of_char c \<notin> set [9, 10, 11, 12, 13, 28, 29, 30, 31, 32 :: nat])
      (split_nl three_pods)) = 3"
  by code_simp

lemma three_pods_lines:
  "split_nl three_pods =
     [''exec-1   1/1   Running   0   5m'', ''exec-2   0/1   Pending   0   5m'', '''',
      ''exec-3   1/1   Running   0   4m'', '''']"
  by code_simp

theorem get_executor_count_total_witness:
  "result (oc_reply listing (length (history listing))
      (kubectl_cmd pipeline @
         [''get'', ''pods'', ''-l'', ''spark-app-name='' @ ''mdp-bronze-ingest'' @ '',spark-role=executor'',
          ''-n'', namespace pipeline, ''--no-headers''])) = Exit0 three_pods
   \<and> (\<exists>w'. get_executor_count pipeline ''mdp-bronze-ingest'' listing = (w', Inr 3))
   \<and> split_nl three_pods =
     [''exec-1   1/1   Running   0   5m'', ''exec-2   0/1   Pending   0   5m'', '''',
      ''exec-3   1/1   Running   0   4m'', '''']"
proof -
  have r: "result (oc_reply listing k c) = Exit0 three_pods" for k c
    by (simp add: listing_def fresh_def)
  from get_executor_count_total [of pipeline "''mdp-bronze-ingest''" listing three_pods]
  show ?thesis
    unfolding r by (auto simp: three_pods_count three_pods_lines)
qed

subsection \<open>C10\<close>

text \<open>
  C10. With \<open>--check-resources\<close>, whatever \<open>--stage\<close> is, \<open>main\<close> runs the resource check
  and nothing else: the commands it runs are \<open>get nodes\<close> and, when that succeeded,
  \<open>top nodes\<close>. No job is deleted and no manifest is applied, and the exit code is 0
  whether the two commands succeed or fail.
\<close>

theorem main_check_resources:
  assumes "check_resources a"
  defines "orch \<equiv> init (arg_namespace a) (arg_kubeconfig a)"
  shows "snd (main a w) = 0
    \<and> commands_since w (fst (main a w)) =
        nodes_cmd orch # (if failed (reply_at w 0 (nodes_cmd orch)) then [] else [top_cmd orch])
    \<and> delete_cmd orch job_name \<notin> set (commands_since w (fst (main a w)))
    \<and> apply_cmd orch manifest_path \<notin> set (commands_since w (fst (main a w)))"
proof -
  obtain w' r where g: "check_cluster_resources orch w = (w', r)"
    by force
  note s = check_cluster_resources_spec [OF g]
  have m: "main a w = (w', 0)"
    using assms(1) g s by (simp add: main_def orch_def [symmetric])
  have c: "commands_since w w' =
        nodes_cmd orch # (if failed (reply_at w 0 (nodes_cmd orch)) then [] else [top_cmd orch])"
    using s by (simp add: ran_def commands_since_def)
  have "delete_cmd orch job_name \<noteq> nodes_cmd orch" "delete_cmd orch job_name \<noteq> top_cmd orch"
    "apply_cmd orch manifest_path \<noteq> nodes_cmd orch" "apply_cmd orch manifest_path \<noteq> top_cmd orch"
    by (simp_all add: delete_cmd_def apply_cmd_def nodes_cmd_def top_cmd_def)
  with m c show ?thesis
    by simp
qed

theorem main_check_resources_witness:
  "check_resources \<lparr>arg_kubeconfig = None, arg_namespace = ''md-pipeline'', arg_stage = Full,
      check_resources = True\<rparr>
   \<and> snd (main \<lparr>arg_kubeconfig = None, arg_namespace = ''md-pipeline'', arg_stage = Full,
      check_resources = True\<rparr> failing) = 0
   \<and> commands_since failing (fst (main \<lparr>arg_kubeconfig = None, arg_namespace = ''md-pipeline'',
      arg_stage = Full, check_resources = True\<rparr> failing)) = [[''oc'', ''get'', ''nodes'', ''-o'', ''wide'']]"
  using main_check_resources [of "\<lparr>arg_kubeconfig = None, arg_namespace = ''md-pipeline'',
      arg_stage = Full, check_resources = True\<rparr>" failing]
  by (simp add: failed_def nodes_cmd_def init_def)

end
